theory Spec2Isabelle
  imports Complex_Main
begin

section \<open>Errors\<close>

text \<open>
  What the source can raise: a \<open>TypeError\<close> when a member of \<open>null\<close> or \<open>undefined\<close>
  is read, the \<open>Error\<close> thrown by \<open>findChrome\<close> (with the paths it searched), the
  rejection of a call into the browser driver, and the two parameter errors of the image
  library: a resize to a dimension that is not a positive integer, and a jpeg quality
  outside 1..100.
\<close>

datatype driver_call =
  Launch | Pages | NewPage | SetViewport | EvaluateOnNewDocument | BrowserClose | Goto | PageClose

datatype error =
    TypeError
  | ChromeNotFound "string list"
  | DriverError driver_call
  | InvalidDimensions int int
  | InvalidQuality int

section \<open>JavaScript numbers\<close>

text \<open>
  A JavaScript number is an IEEE 754 double. \<open>fl\<close> rounds a real number to the nearest
  number with a 53-bit significand, ties to even: the result of every arithmetic operation
  of the source is \<open>fl\<close> of the exact result. Integers below \<open>2^53\<close> are such numbers
  themselves. The exponent range is not bounded here; the quotients and products of image
  dimensions stay far inside the range of a double. \<open>expo x\<close> is the integer \<open>e\<close> with
  \<open>2^e \<le> x < 2^(e+1)\<close> for positive \<open>x\<close>.
\<close>

fun ilog2 :: "nat \<Rightarrow> nat" where
  "ilog2 n = (if n < 2 then 0 else Suc (ilog2 (n div 2)))"

declare ilog2.simps [simp del]

definition pow2 :: "int \<Rightarrow> real" where
  "pow2 e = (if 0 \<le> e then 2 ^ nat e else 1 / 2 ^ nat (- e))"

definition expo :: "real \<Rightarrow> int" where
  "expo x = (if 1 \<le> x then int (ilog2 (nat \<lfloor>x\<rfloor>))
             else - int (ilog2 (nat (\<lceil>1 / x\<rceil> - 1))) - 1)"

definition round_even :: "real \<Rightarrow> int" where
  "round_even t =
     (let n = \<lfloor>t\<rfloor>; f = t - real_of_int n
      in if f < 1 / 2 then n else if 1 / 2 < f then n + 1 else if even n then n else n + 1)"

definition fl_pos :: "real \<Rightarrow> real" where
  "fl_pos x = (let e = expo x - 52 in real_of_int (round_even (x / pow2 e)) * pow2 e)"

definition fl :: "real \<Rightarrow> real" where
  "fl x = (if 0 < x then fl_pos x else if x < 0 then - fl_pos (- x) else 0)"

text \<open>The unit roundoff: the relative error of one rounding is at most \<open>eps\<close>.\<close>

definition eps :: real where
  "eps = 1 / 2 ^ 53"

text \<open>\<open>Math.round\<close> rounds halves upwards; \<open>Math.floor\<close> is \<open>floor\<close>.\<close>

definition js_round :: "real \<Rightarrow> int" where
  "js_round x = \<lfloor>x + 1 / 2\<rfloor>"

section \<open>Capture compressor: \<open>compressImageToFit\<close> (src/server/index.js, lines 115-173)\<close>

text \<open>
  The image library is an external collaborator. What the source does with it is to build a
  pipeline from the decoded screenshot (\<open>sharp(imgBuffer)\<close>), optionally followed by
  \<open>.resize(w, h, {fit: 'inside'})\<close>, and to encode that pipeline either as
  \<open>.jpeg({quality: q})\<close> or as \<open>.png({compressionLevel: 9})\<close>. A pipeline and an
  encode call are therefore plain data here, and the length of the buffer an encode call
  produces is a parameter \<open>len\<close> of the model: the theorems hold for every encoder.
  The library checks its parameters when the call is made: \<open>resize\<close> raises unless both
  dimensions are positive integers, \<open>jpeg\<close> raises unless the quality is an integer
  from 1 to 100.
\<close>

datatype format = Jpeg | Png

datatype pipeline = Source | Resize int int

datatype encoding = JpegEnc pipeline int | PngEnc pipeline

definition resize :: "int \<Rightarrow> int \<Rightarrow> error + pipeline" where
  "resize w h = (if 0 < w \<and> 0 < h then Inr (Resize w h) else Inl (InvalidDimensions w h))"

text \<open>
  Lines 121-133: the dimensions the clamp computes, in the arithmetic of the source
  (\<open>aspectRatio\<close> is a double, and so are the quotient and the product that
  \<open>Math.round\<close> receives). \<open>metadata.width\<close> and \<open>metadata.height\<close> are the
  dimensions of a decoded image, hence positive integers.
\<close>

definition clampTarget :: "int \<Rightarrow> int \<Rightarrow> int \<Rightarrow> int \<Rightarrow> int \<times> int" where
  "clampTarget metaWidth metaHeight maxWidth maxHeight =
     (let aspectRatio = fl (real_of_int metaWidth / real_of_int metaHeight);
          (w1, h1) = (if metaWidth > maxWidth
                      then (maxWidth, js_round (fl (real_of_int maxWidth / aspectRatio)))
                      else (metaWidth, metaHeight));
          (w2, h2) = (if h1 > maxHeight
                      then (js_round (fl (real_of_int maxHeight * aspectRatio)), maxHeight)
                      else (w1, h1))
      in (w2, h2))"

text \<open>
  Lines 121-135: the dimension clamp, run before the loop. The result is the pipeline
  \<open>image\<close> together with \<open>currentWidth\<close> and \<open>currentHeight\<close>, or the error of the
  \<open>resize\<close> call of line 134.
\<close>

definition clampDimensions :: "int \<Rightarrow> int \<Rightarrow> int \<Rightarrow> int \<Rightarrow> error + pipeline \<times> int \<times> int" where
  "clampDimensions metaWidth metaHeight maxWidth maxHeight =
     (if metaWidth > maxWidth \<or> metaHeight > maxHeight then
        (case clampTarget metaWidth metaHeight maxWidth maxHeight of
           (w, h) \<Rightarrow> (case resize w h of
                        Inl e \<Rightarrow> Inl e
                      | Inr img \<Rightarrow> Inr (img, w, h)))
      else Inr (Source, metaWidth, metaHeight))"

text \<open>Lines 137-163: the state of the loop and one run of it.\<close>

record loop_state =
  image :: pipeline
  currentWidth :: int
  currentHeight :: int
  currentQuality :: int
  compressedBuffer :: "encoding option"
  iterations :: nat

definition maxIterations :: nat where
  "maxIterations = 10"

text \<open>Lines 143-147: the encode of one round.\<close>

definition encode :: "format \<Rightarrow> loop_state \<Rightarrow> error + encoding" where
  "encode fmt s =
     (if fmt = Jpeg then
        (if 1 \<le> currentQuality s \<and> currentQuality s \<le> 100
         then Inr (JpegEnc (image s) (currentQuality s))
         else Inl (InvalidQuality (currentQuality s)))
      else Inr (PngEnc (image s)))"

text \<open>
  Line 154 and lines 157-158: the two levers, \<open>Math.max(10, Math.floor(q * 0.8))\<close> and
  \<open>Math.floor(d * 0.9)\<close>. The literals are the doubles nearest to 0.8 and 0.9, and the
  product is rounded to a double before \<open>Math.floor\<close> sees it.
\<close>

definition decayQuality :: "int \<Rightarrow> int" where
  "decayQuality q = max 10 \<lfloor>fl (real_of_int q * fl 0.8)\<rfloor>"

definition shrinkDimension :: "int \<Rightarrow> int" where
  "shrinkDimension d = \<lfloor>fl (real_of_int d * fl 0.9)\<rfloor>"

text \<open>Lines 153-160: the reduction of one round, with the \<open>resize\<close> call it makes.\<close>

definition reduce :: "format \<Rightarrow> loop_state \<Rightarrow> error + loop_state" where
  "reduce fmt s =
     (if fmt = Jpeg then
        (case resize (currentWidth s) (currentHeight s) of
           Inl e \<Rightarrow> Inl e
         | Inr img \<Rightarrow> Inr (s\<lparr>currentQuality := decayQuality (currentQuality s), image := img\<rparr>))
      else
        (let w = shrinkDimension (currentWidth s);
             h = shrinkDimension (currentHeight s)
         in case resize w h of
              Inl e \<Rightarrow> Inl e
            | Inr img \<Rightarrow> Inr (s\<lparr>currentWidth := w, currentHeight := h, image := img\<rparr>)))"

function compress_loop ::
  "(encoding \<Rightarrow> nat) \<Rightarrow> format \<Rightarrow> nat \<Rightarrow> loop_state \<Rightarrow> error + loop_state" where
  "compress_loop len fmt maxSizeBytes s =
     (if iterations s < maxIterations then
        (case encode fmt s of
           Inl e \<Rightarrow> Inl e
         | Inr buf \<Rightarrow>
             (let s1 = s\<lparr>compressedBuffer := Some buf\<rparr>
              in if len buf \<le> maxSizeBytes \<or> currentQuality s1 \<le> 10 then Inr s1
                 else (case reduce fmt s1 of
                         Inl e \<Rightarrow> Inl e
                       | Inr s2 \<Rightarrow>
                           compress_loop len fmt maxSizeBytes
                             (s2\<lparr>iterations := iterations s2 + 1\<rparr>))))
      else Inr s)"
  by pat_completeness auto
termination
  by (relation "measure (\<lambda>(len, fmt, maxSizeBytes, s). maxIterations - iterations s)")
     (auto simp: reduce_def Let_def split: if_splits sum.splits)

declare compress_loop.simps [simp del]

text \<open>Lines 165-172: the returned object (\<open>base64\<close> is the buffer again, re-encoded).\<close>

record capture_result =
  buffer :: encoding
  sizeBytes :: nat
  width :: int
  height :: int
  finalQuality :: int

text \<open>
  Lines 137-172: the loop started on what the clamp left, and the object built from its
  final state. Reading \<open>compressedBuffer.length\<close> of an unset buffer would raise.
\<close>

definition compressFrom ::
  "(encoding \<Rightarrow> nat) \<Rightarrow> format \<Rightarrow> int \<Rightarrow> nat \<Rightarrow> pipeline \<times> int \<times> int
     \<Rightarrow> error + capture_result" where
  "compressFrom len fmt quality maxSizeBytes c =
     (case c of
        (img, w, h) \<Rightarrow>
          (case compress_loop len fmt maxSizeBytes
                  \<lparr>image = img, currentWidth = w, currentHeight = h, currentQuality = quality,
                   compressedBuffer = None, iterations = 0\<rparr> of
             Inl e \<Rightarrow> Inl e
           | Inr s \<Rightarrow>
               (case compressedBuffer s of
                  None \<Rightarrow> Inl TypeError
                | Some buf \<Rightarrow>
                    Inr \<lparr>buffer = buf, sizeBytes = len buf, width = currentWidth s,
                         height = currentHeight s, finalQuality = currentQuality s\<rparr>)))"

text \<open>
  The whole function. \<open>maxSizeBytes\<close> is an optional argument with default 950000
  (line 115): \<open>None\<close> is the omitted argument.
\<close>

definition effectiveMaxSizeBytes :: "nat option \<Rightarrow> nat" where
  "effectiveMaxSizeBytes arg = (case arg of None \<Rightarrow> 950000 | Some n \<Rightarrow> n)"

definition compressImageToFit ::
  "(encoding \<Rightarrow> nat) \<Rightarrow> int \<times> int \<Rightarrow> format \<Rightarrow> int \<Rightarrow> int \<Rightarrow> int \<Rightarrow> nat option
     \<Rightarrow> error + capture_result" where
  "compressImageToFit len metadata fmt quality maxWidth maxHeight maxSizeBytesArg =
     (let maxSizeBytes = effectiveMaxSizeBytes maxSizeBytesArg
      in case clampDimensions (fst metadata) (snd metadata) maxWidth maxHeight of
           Inl e \<Rightarrow> Inl e
         | Inr c \<Rightarrow> compressFrom len fmt quality maxSizeBytes c)"

text \<open>
  The caller, the \<open>chrome_screenshot\<close> case of the request handler (lines 856-902):
  the validated parameters (\<open>ScreenshotSchema\<close>, lines 40-47) and the call of
  \<open>compressImageToFit\<close> at lines 881-887.
\<close>

record screenshot_params =
  full_page :: bool
  selector :: "string option"
  format :: format
  quality :: int
  max_width :: int
  max_height :: int

definition chrome_screenshot_compress ::
  "(encoding \<Rightarrow> nat) \<Rightarrow> int \<times> int \<Rightarrow> screenshot_params \<Rightarrow> error + capture_result" where
  "chrome_screenshot_compress len metadata params =
     compressImageToFit len metadata (format params) (quality params)
       (max_width params) (max_height params) None"

text \<open>
  A sample encoder for the examples: three bytes per pixel for the lossless format (an
  image that does not compress), and a size proportional to pixels and quality for the
  lossy one.
\<close>

definition pixelEncoder :: "int \<times> int \<Rightarrow> encoding \<Rightarrow> nat" where
  "pixelEncoder metadata e =
     (case e of
        PngEnc Source \<Rightarrow> nat (3 * fst metadata * snd metadata)
      | PngEnc (Resize w h) \<Rightarrow> nat (3 * w * h)
      | JpegEnc Source q \<Rightarrow> nat (fst metadata * snd metadata * q div 100)
      | JpegEnc (Resize w h) q \<Rightarrow> nat (w * h * q div 100))"

text \<open>
  The lossy track, round by round: the encode call of round \<open>i\<close> and the test of line 149
  on it.
\<close>

definition jpegEncoding :: "pipeline \<Rightarrow> int \<Rightarrow> int \<Rightarrow> int \<Rightarrow> nat \<Rightarrow> encoding" where
  "jpegEncoding img w h q i =
     JpegEnc (if i = 0 then img else Resize w h) ((decayQuality ^^ i) q)"

definition jpegStops ::
  "(encoding \<Rightarrow> nat) \<Rightarrow> nat \<Rightarrow> pipeline \<Rightarrow> int \<Rightarrow> int \<Rightarrow> int \<Rightarrow> nat \<Rightarrow> bool" where
  "jpegStops len M img w h q i \<longleftrightarrow>
     len (jpegEncoding img w h q i) \<le> M \<or> (decayQuality ^^ i) q \<le> 10"

text \<open>The state of the lossy loop on entry to round \<open>i\<close>, when no earlier round stopped.\<close>

definition jpegState :: "pipeline \<Rightarrow> int \<Rightarrow> int \<Rightarrow> int \<Rightarrow> nat \<Rightarrow> loop_state" where
  "jpegState img w h q i =
     \<lparr>image = (if i = 0 then img else Resize w h), currentWidth = w, currentHeight = h,
      currentQuality = (decayQuality ^^ i) q,
      compressedBuffer = (if i = 0 then None else Some (jpegEncoding img w h q (i - 1))),
      iterations = i\<rparr>"



section \<open>Session controller: \<open>BrowserManager\<close> (src/server/index.js, lines 175-263)\<close>

subsection \<open>The browser driver and the file system, as the controller sees them\<close>

text \<open>
  The driver is an external collaborator. The model keeps what the controller can observe
  of it: which browsers were launched and with which options, which of them answer
  \<open>isConnected()\<close>, the open pages in the order of \<open>browser.pages()\<close>, the viewport, the
  location and the injected scripts of each page, and the browsers on which the manager has
  registered its \<open>targetcreated\<close> handler. A handle is a number. \<open>failing\<close> lists the
  driver calls that reject; a page that is not open answers \<open>isClosed()\<close> with true, and
  the calls on it (\<open>goto\<close>, \<open>setViewport\<close>, \<open>evaluateOnNewDocument\<close>) reject. A launched
  browser starts with one blank page, as Chrome does; that page exists before
  \<open>puppeteer.launch\<close> returns, hence before the handler is registered.
\<close>

type_synonym browser_handle = nat
type_synonym page_handle = nat

record launch_options =
  executablePath :: "string option"
  headless :: bool
  windowWidth :: int
  windowHeight :: int

record world =
  chromePaths :: "string list"
  files :: "string list"
  failing :: "driver_call list"
  launches :: "launch_options list"
  connected :: "browser_handle list"
  listeners :: "browser_handle list"
  tabs :: "(page_handle \<times> browser_handle) list"
  fresh_page :: page_handle
  viewports :: "page_handle \<rightharpoonup> int \<times> int"
  overrides :: "page_handle list"
  urls :: "page_handle \<Rightarrow> string"

definition fails :: "world \<Rightarrow> driver_call \<Rightarrow> bool" where
  "fails w c \<longleftrightarrow> c \<in> set (failing w)"

definition isConnected :: "world \<Rightarrow> browser_handle \<Rightarrow> bool" where
  "isConnected w b \<longleftrightarrow> b \<in> set (connected w)"

definition isClosed :: "world \<Rightarrow> page_handle \<Rightarrow> bool" where
  "isClosed w p \<longleftrightarrow> p \<notin> set (map fst (tabs w))"

definition pages :: "world \<Rightarrow> browser_handle \<Rightarrow> page_handle list" where
  "pages w b = map fst (filter (\<lambda>t. snd t = b) (tabs w))"

definition openTab :: "browser_handle \<Rightarrow> world \<Rightarrow> page_handle \<times> world" where
  "openTab b w =
     (fresh_page w,
      w\<lparr>tabs := tabs w @ [(fresh_page w, b)],
        urls := (urls w)(fresh_page w := ''about:blank''),
        fresh_page := Suc (fresh_page w)\<rparr>)"

definition launch :: "launch_options \<Rightarrow> world \<Rightarrow> error + browser_handle \<times> world" where
  "launch opts w =
     (if fails w Launch then Inl (DriverError Launch)
      else let b = length (launches w)
           in Inr (b, snd (openTab b (w\<lparr>launches := launches w @ [opts],
                                         connected := b # connected w\<rparr>))))"

definition setViewport :: "page_handle \<Rightarrow> int \<times> int \<Rightarrow> world \<Rightarrow> error + world" where
  "setViewport p v w =
     (if fails w SetViewport \<or> isClosed w p then Inl (DriverError SetViewport)
      else Inr (w\<lparr>viewports := (viewports w)(p \<mapsto> v)\<rparr>))"

definition evaluateOnNewDocument :: "page_handle \<Rightarrow> world \<Rightarrow> error + world" where
  "evaluateOnNewDocument p w =
     (if fails w EvaluateOnNewDocument \<or> isClosed w p then Inl (DriverError EvaluateOnNewDocument)
      else Inr (w\<lparr>overrides := overrides w @ [p]\<rparr>))"

definition browser_close :: "browser_handle \<Rightarrow> world \<Rightarrow> error + world" where
  "browser_close b w =
     (if fails w BrowserClose then Inl (DriverError BrowserClose)
      else Inr (w\<lparr>connected := removeAll b (connected w),
                  tabs := filter (\<lambda>t. snd t \<noteq> b) (tabs w)\<rparr>))"

definition goto :: "page_handle \<Rightarrow> string \<Rightarrow> world \<Rightarrow> error + world" where
  "goto p url w =
     (if fails w Goto \<or> isClosed w p then Inl (DriverError Goto)
      else Inr (w\<lparr>urls := (urls w)(p := url)\<rparr>))"

definition page_close :: "page_handle \<Rightarrow> world \<Rightarrow> error + world" where
  "page_close p w =
     (if fails w PageClose then Inl (DriverError PageClose)
      else Inr (w\<lparr>tabs := filter (\<lambda>t. fst t \<noteq> p) (tabs w)\<rparr>))"

subsection \<open>\<open>findChrome\<close> (src/server/utils.js)\<close>

text \<open>
  Lines 49-55: the first candidate that is a non-empty string and exists, or the error.
  The candidate list \<open>chromePaths\<close> is what lines 6-47 assemble for the platform.
\<close>

fun firstExisting :: "string list \<Rightarrow> string list \<Rightarrow> string option" where
  "firstExisting fs [] = None"
| "firstExisting fs (path # paths) =
     (if path \<noteq> [] \<and> path \<in> set fs then Some path else firstExisting fs paths)"

definition findChrome :: "world \<Rightarrow> error + string" where
  "findChrome w =
     (case firstExisting (files w) (chromePaths w) of
        Some path \<Rightarrow> Inr path
      | None \<Rightarrow> Inl (ChromeNotFound (chromePaths w)))"

subsection \<open>The manager\<close>

record manager =
  browser :: "browser_handle option"
  page :: "page_handle option"
  chromePath :: "string option"

text \<open>Lines 176-180, the constructor.\<close>

definition newManager :: manager where
  "newManager = \<lparr>browser = None, page = None, chromePath = None\<rparr>"

text \<open>Lines 182-186. \<open>!this.chromePath\<close> holds for \<open>null\<close> and for the empty string.\<close>

definition initialize :: "manager \<Rightarrow> world \<Rightarrow> (error + unit) \<times> manager" where
  "initialize m w =
     (if chromePath m = None \<or> chromePath m = Some []
      then (case findChrome w of
              Inl e \<Rightarrow> (Inl e, m)
            | Inr path \<Rightarrow> (Inr (), m\<lparr>chromePath := Some path\<rparr>))
      else (Inr (), m))"

text \<open>
  Lines 209-222, the \<open>targetcreated\<close> handler. A target has a type and, for a page
  target, the page that \<open>target.page()\<close> resolves to (or \<open>null\<close>). The handler reads the
  manager and acts on the world; it has no \<open>try\<close> block.
\<close>

record target =
  target_type :: string
  target_page :: "page_handle option"

definition targetcreated :: "target \<Rightarrow> manager \<Rightarrow> world \<Rightarrow> (error + unit) \<times> world" where
  "targetcreated t m w =
     (if target_type t = ''page'' then
        (case target_page t of
           None \<Rightarrow> (Inr (), w)
         | Some newPg \<Rightarrow>
             if Some newPg \<noteq> page m then
               (let url = urls w newPg in
                case (if url \<noteq> [] \<and> url \<noteq> ''about:blank''
                      then (case page m of
                              None \<Rightarrow> Inl TypeError
                            | Some p \<Rightarrow> goto p url w)
                      else Inr w) of
                  Inl e \<Rightarrow> (Inl e, w)
                | Inr w1 \<Rightarrow>
                    (case page_close newPg w1 of
                       Inl e \<Rightarrow> (Inl e, w1)
                     | Inr w2 \<Rightarrow> (Inr (), w2)))
             else (Inr (), w))
      else (Inr (), w))"

text \<open>
  \<open>browser.newPage()\<close>, as line 230 calls it. The driver opens the tab and emits
  \<open>targetcreated\<close> for it before the promise of \<open>newPage()\<close> resolves, so the handler
  that the manager registered on this browser runs on the new page while \<open>this.page\<close> still
  is the old page (line 230 assigns only after the \<open>await\<close>). A rejection inside the
  handler reaches no caller; what the handler did to the world stays.
\<close>

definition newPage :: "browser_handle \<Rightarrow> manager \<Rightarrow> world \<Rightarrow> error + page_handle \<times> world" where
  "newPage b m w =
     (if fails w NewPage then Inl (DriverError NewPage)
      else (case openTab b w of
              (p, w1) \<Rightarrow>
                Inr (p, if b \<in> set (listeners w1)
                        then snd (targetcreated \<lparr>target_type = ''page'', target_page = Some p\<rparr> m w1)
                        else w1)))"

text \<open>
  Lines 189-223, the first half of \<open>ensureBrowser\<close>: launch when there is no browser or it
  is disconnected, then register the \<open>targetcreated\<close> handler on the new browser. A raise
  leaves the manager and the world as they were at that point.
\<close>

definition ensureBrowser_launch ::
  "bool \<Rightarrow> int \<Rightarrow> int \<Rightarrow> manager \<Rightarrow> world \<Rightarrow> (error + unit) \<times> manager \<times> world" where
  "ensureBrowser_launch hl vwidth vheight m w =
     (if (case browser m of None \<Rightarrow> True | Some b \<Rightarrow> \<not> isConnected w b) then
        (case initialize m w of
           (Inl e, m1) \<Rightarrow> (Inl e, m1, w)
         | (Inr u, m1) \<Rightarrow>
             (case launch \<lparr>executablePath = chromePath m1, headless = hl,
                           windowWidth = vwidth, windowHeight = vheight\<rparr> w of
                Inl e \<Rightarrow> (Inl e, m1, w)
              | Inr (b, w1) \<Rightarrow>
                  (Inr (), m1\<lparr>browser := Some b\<rparr>, w1\<lparr>listeners := listeners w1 @ [b]\<rparr>)))
      else (Inr (), m, w))"

text \<open>
  Lines 225-243, the second half: take a page when there is none or it reports itself
  closed, then set its viewport and inject the \<open>window.open\<close> override.
\<close>

definition ensureBrowser_page ::
  "int \<Rightarrow> int \<Rightarrow> manager \<Rightarrow> world \<Rightarrow> (error + unit) \<times> manager \<times> world" where
  "ensureBrowser_page vwidth vheight m w =
     (if (case page m of None \<Rightarrow> True | Some p \<Rightarrow> isClosed w p) then
        (case browser m of
           None \<Rightarrow> (Inl TypeError, m, w)
         | Some b \<Rightarrow>
             if fails w Pages then (Inl (DriverError Pages), m, w)
             else
               (case (case pages w b of
                        p # ps \<Rightarrow> Inr (p, w)
                      | [] \<Rightarrow> newPage b m w) of
                  Inl e \<Rightarrow> (Inl e, m, w)
                | Inr (p, w1) \<Rightarrow>
                    (let m1 = m\<lparr>page := Some p\<rparr> in
                     case setViewport p (vwidth, vheight) w1 of
                       Inl e \<Rightarrow> (Inl e, m1, w1)
                     | Inr w2 \<Rightarrow>
                         (case evaluateOnNewDocument p w2 of
                            Inl e \<Rightarrow> (Inl e, m1, w2)
                          | Inr w3 \<Rightarrow> (Inr (), m1, w3)))))
      else (Inr (), m, w))"

text \<open>
  Lines 188-246. The call without arguments, as the request handlers make it, is
  \<open>ensureBrowser False 1280 720\<close>. The result is the pair \<open>{browser, page}\<close> of line 245.
\<close>

definition ensureBrowser ::
  "bool \<Rightarrow> int \<Rightarrow> int \<Rightarrow> manager \<Rightarrow> world
     \<Rightarrow> (error + browser_handle option \<times> page_handle option) \<times> manager \<times> world" where
  "ensureBrowser hl vwidth vheight m w =
     (case ensureBrowser_launch hl vwidth vheight m w of
        (Inl e, m1, w1) \<Rightarrow> (Inl e, m1, w1)
      | (Inr u, m1, w1) \<Rightarrow>
          (case ensureBrowser_page vwidth vheight m1 w1 of
             (Inl e, m2, w2) \<Rightarrow> (Inl e, m2, w2)
           | (Inr u, m2, w2) \<Rightarrow> (Inr (browser m2, page m2), m2, w2)))"

text \<open>Lines 248-254.\<close>

definition closeBrowser :: "manager \<Rightarrow> world \<Rightarrow> (error + unit) \<times> manager \<times> world" where
  "closeBrowser m w =
     (case browser m of
        None \<Rightarrow> (Inr (), m, w)
      | Some b \<Rightarrow>
          (case browser_close b w of
             Inl e \<Rightarrow> (Inl e, m, w)
           | Inr w1 \<Rightarrow> (Inr (), m\<lparr>browser := None, page := None\<rparr>, w1)))"

text \<open>A world for the examples: one browser with its first page and a second, new page.\<close>

definition sampleWorld :: world where
  "sampleWorld =
     \<lparr>chromePaths = [''/usr/bin/google-chrome'', ''/usr/bin/chromium''],
      files = [''/usr/bin/chromium''],
      failing = [],
      launches = [\<lparr>executablePath = Some ''/usr/bin/chromium'', headless = False,
                   windowWidth = 1280, windowHeight = 720\<rparr>],
      connected = [0],
      listeners = [0],
      tabs = [(0, 0), (1, 0)],
      fresh_page = 2,
      viewports = [0 \<mapsto> (1280, 720)],
      overrides = [0],
      urls = (\<lambda>p. if p = 1 then ''https://example.org/'' else ''about:blank'')\<rparr>"

definition sampleManager :: manager where
  "sampleManager = \<lparr>browser = Some 0, page = Some 0, chromePath = Some ''/usr/bin/chromium''\<rparr>"

subsection \<open>Notions used to state the properties of the controller\<close>

text \<open>Two calls of \<open>ensureBrowser\<close> in succession, the second on the state the first left.\<close>

definition ensureBrowser_twice ::
  "bool \<times> int \<times> int \<Rightarrow> bool \<times> int \<times> int \<Rightarrow> manager \<Rightarrow> world
     \<Rightarrow> (error + browser_handle option \<times> page_handle option)
        \<times> (error + browser_handle option \<times> page_handle option) \<times> manager \<times> world" where
  "ensureBrowser_twice args1 args2 m w =
     (case args1 of (hl1, w1, h1) \<Rightarrow> case args2 of (hl2, w2, h2) \<Rightarrow>
      case ensureBrowser hl1 w1 h1 m w of (r1, m1, wa) \<Rightarrow>
      case ensureBrowser hl2 w2 h2 m1 wa of (r2, m2, wb) \<Rightarrow> (r1, r2, m2, wb))"

text \<open>
  The world once a page has been given its viewport and the \<open>window.open\<close> override
  (lines 232-242), and the guard of line 225.
\<close>

definition withPage :: "int \<Rightarrow> int \<Rightarrow> page_handle \<Rightarrow> world \<Rightarrow> world" where
  "withPage vw vh p w =
     w\<lparr>viewports := (viewports w)(p \<mapsto> (vw, vh)), overrides := overrides w @ [p]\<rparr>"

definition pageGone :: "manager \<Rightarrow> world \<Rightarrow> bool" where
  "pageGone m w \<longleftrightarrow> (case page m of None \<Rightarrow> True | Some p \<Rightarrow> isClosed w p)"

text \<open>
  The guard of line 189, the world after a successful launch with the handler registered,
  and the invariant of the manager: without a browser there is no page.
\<close>

definition needsLaunch :: "manager \<Rightarrow> world \<Rightarrow> bool" where
  "needsLaunch m w \<longleftrightarrow> (case browser m of None \<Rightarrow> True | Some b \<Rightarrow> \<not> isConnected w b)"

definition launched :: "world \<Rightarrow> launch_options \<Rightarrow> world" where
  "launched w opts =
     (let b = length (launches w);
          w1 = snd (openTab b (w\<lparr>launches := launches w @ [opts], connected := b # connected w\<rparr>))
      in w1\<lparr>listeners := listeners w1 @ [b]\<rparr>)"

definition manager_inv :: "manager \<Rightarrow> bool" where
  "manager_inv m \<longleftrightarrow> (browser m = None \<longrightarrow> page m = None)"

text \<open>Further states for the examples.\<close>

definition closedWorld :: world where
  "closedWorld = sampleWorld\<lparr>connected := [], tabs := []\<rparr>"

definition emptyWorld :: world where
  "emptyWorld =
     \<lparr>chromePaths = [''/usr/bin/google-chrome'', ''/usr/bin/chromium''],
      files = [], failing = [], launches = [], connected = [], listeners = [], tabs = [],
      fresh_page = 0, viewports = Map.empty, overrides = [], urls = (\<lambda>p. ''about:blank'')\<rparr>"

definition chromeInstalled :: world where
  "chromeInstalled = emptyWorld\<lparr>files := [''/usr/bin/chromium'']\<rparr>"

definition closedManager :: manager where
  "closedManager = sampleManager\<lparr>browser := None, page := None\<rparr>"

definition stalePageManager :: manager where
  "stalePageManager = sampleManager\<lparr>page := Some 7\<rparr>"

definition popupTarget :: target where
  "popupTarget = \<lparr>target_type = ''page'', target_page = Some 1\<rparr>"

text \<open>
  A connected browser that has lost all its pages, and a browser that was launched with a
  1920 x 1080 window and whose first page was closed while a second one is open.
\<close>

definition noTabsWorld :: world where
  "noTabsWorld = sampleWorld\<lparr>tabs := []\<rparr>"

definition wideWorld :: world where
  "wideWorld =
     sampleWorld\<lparr>launches := [\<lparr>executablePath = Some ''/usr/bin/chromium'', headless = False,
                                windowWidth = 1920, windowHeight = 1080\<rparr>],
                  tabs := [(1, 0)],
                  viewports := [1 \<mapsto> (1920, 1080)]\<rparr>"

section \<open>Properties of the arithmetic\<close>

subsection \<open>Rounding to a double\<close>

lemma ilog2_bounds: "0 < n \<Longrightarrow> 2 ^ ilog2 n \<le> n \<and> n < 2 ^ Suc (ilog2 n)"
proof (induction n rule: ilog2.induct)
  case (1 n)
  show ?case
  proof (cases "n < 2")
    case True
    with "1.prems" have "n = 1" by simp
    then show ?thesis by (simp add: ilog2.simps)
  next
    case False
    then have pos: "0 < n div 2" by simp
    from "1.IH" [OF False pos]
    have ih: "2 ^ ilog2 (n div 2) \<le> n div 2" "n div 2 < 2 ^ Suc (ilog2 (n div 2))" by simp_all
    have eq: "ilog2 n = Suc (ilog2 (n div 2))" using False by (subst ilog2.simps) simp
    have "2 * 2 ^ ilog2 (n div 2) \<le> 2 * (n div 2)" using ih(1) by simp
    also have "\<dots> \<le> n" by simp
    finally have lo: "2 ^ ilog2 n \<le> n" by (simp add: eq)
    have "Suc (n div 2) \<le> 2 ^ Suc (ilog2 (n div 2))" using ih(2) by simp
    then have "2 * Suc (n div 2) \<le> 2 * 2 ^ Suc (ilog2 (n div 2))" by simp
    moreover have "n < 2 * Suc (n div 2)" by simp
    ultimately have hi: "n < 2 ^ Suc (ilog2 n)" by (simp add: eq)
    from lo hi show ?thesis by simp
  qed
qed

lemma pow2_powi: "pow2 e = 2 powi e"
  by (simp add: pow2_def power_int_def inverse_eq_divide power_one_over)

lemma pow2_pos: "0 < pow2 e"
  by (simp add: pow2_powi)

lemma pow2_add: "pow2 (a + b) = pow2 a * pow2 b"
  by (simp add: pow2_powi power_int_add)

lemma pow2_nat: "pow2 (int k) = 2 ^ k"
  by (simp add: pow2_def)

lemma pow2_neg: "pow2 (- e) = 1 / pow2 e"
  by (simp add: pow2_powi power_int_minus inverse_eq_divide)

lemma expo_bounds:
  assumes "0 < x"
  shows "pow2 (expo x) \<le> x \<and> x < pow2 (expo x + 1)"
proof (cases "1 \<le> x")
  case True
  let ?n = "nat \<lfloor>x\<rfloor>"
  have n: "0 < ?n" using True by simp
  from ilog2_bounds [OF n] have b: "2 ^ ilog2 ?n \<le> ?n" "?n < 2 ^ Suc (ilog2 ?n)" by simp_all
  have e: "expo x = int (ilog2 ?n)" using True by (simp add: expo_def)
  have "real (2 ^ ilog2 ?n) \<le> real ?n" using b(1) by (simp only: of_nat_le_iff)
  also have "real ?n \<le> x" using True by simp
  finally have lo: "pow2 (expo x) \<le> x" by (simp add: e pow2_nat)
  have "Suc ?n \<le> 2 ^ Suc (ilog2 ?n)" using b(2) by simp
  then have "real (Suc ?n) \<le> real (2 ^ Suc (ilog2 ?n))" by (simp only: of_nat_le_iff)
  moreover have "x < real (Suc ?n)" using True by simp linarith
  ultimately have "x < real (2 ^ Suc (ilog2 ?n))" by linarith
  moreover have "pow2 (expo x + 1) = 2 ^ Suc (ilog2 ?n)"
    using pow2_nat [of "Suc (ilog2 ?n)"] by (simp add: e add.commute)
  ultimately have hi: "x < pow2 (expo x + 1)" by simp
  from lo hi show ?thesis by simp
next
  case False
  let ?y = "1 / x"
  let ?c = "nat (\<lceil>?y\<rceil> - 1)"
  have y: "1 < ?y" using assms False by simp
  then have c2: "2 \<le> \<lceil>?y\<rceil>" by linarith
  then have n: "0 < ?c" by simp
  from ilog2_bounds [OF n] have b: "2 ^ ilog2 ?c \<le> ?c" "?c < 2 ^ Suc (ilog2 ?c)" by simp_all
  let ?k = "Suc (ilog2 ?c)"
  have e: "expo x = - int ?k" using False by (simp add: expo_def)
  have "0 \<le> \<lceil>?y\<rceil> - 1" using c2 by linarith
  then have "int ?c = \<lceil>?y\<rceil> - 1" by (simp only: int_nat_eq if_True)
  then have rc: "real ?c = real_of_int \<lceil>?y\<rceil> - 1"
    by (metis of_int_1 of_int_diff of_int_of_nat_eq)
  have "real (2 ^ ilog2 ?c) \<le> real ?c" using b(1) by (simp only: of_nat_le_iff)
  then have "(2::real) ^ ilog2 ?c \<le> real ?c" by simp
  moreover have "real ?c < ?y" unfolding rc by linarith
  ultimately have lo: "2 ^ ilog2 ?c < ?y" by linarith
  have "Suc ?c \<le> 2 ^ ?k" using b(2) by simp
  then have "real (Suc ?c) \<le> real (2 ^ ?k)" by (simp only: of_nat_le_iff)
  then have "real ?c + 1 \<le> (2::real) ^ ?k" by simp
  moreover have "?y \<le> real ?c + 1" unfolding rc by linarith
  ultimately have hi: "?y \<le> 2 ^ ?k" by linarith
  have p: "(0::real) < 2 ^ ?k" "(0::real) < 2 ^ ilog2 ?c" by simp_all
  from hi assms have "1 \<le> x * 2 ^ ?k" by (simp add: field_simps)
  then have 1: "1 / 2 ^ ?k \<le> x" using p(1) by (simp add: field_simps)
  from lo assms have "x * 2 ^ ilog2 ?c < 1" by (simp add: field_simps)
  then have 2: "x < 1 / 2 ^ ilog2 ?c" using p(2) by (simp add: field_simps)
  have pe: "pow2 (expo x) = 1 / 2 ^ ?k"
    unfolding e pow2_neg pow2_nat ..
  have "expo x + 1 = - int (ilog2 ?c)" by (simp add: e)
  then have pe1: "pow2 (expo x + 1) = 1 / 2 ^ ilog2 ?c"
    by (simp only: pow2_neg pow2_nat)
  from 1 2 show ?thesis by (simp only: pe pe1)
qed

lemma round_even_near: "\<bar>real_of_int (round_even t) - t\<bar> \<le> 1 / 2"
  unfolding round_even_def Let_def by (auto simp: abs_le_iff)

text \<open>The relative error of one operation is at most \<open>2^-53\<close>.\<close>

lemma fl_rel:
  assumes "0 < x"
  shows "\<bar>fl x - x\<bar> \<le> x / 2 ^ 53"
proof -
  let ?e = "expo x - 52"
  let ?t = "x / pow2 ?e"
  have p: "0 < pow2 ?e" by (rule pow2_pos)
  have f: "fl x = real_of_int (round_even ?t) * pow2 ?e"
    using assms by (simp add: fl_def fl_pos_def Let_def)
  have "fl x - x = (real_of_int (round_even ?t) - ?t) * pow2 ?e"
    using p by (simp add: f field_simps)
  then have "\<bar>fl x - x\<bar> = \<bar>real_of_int (round_even ?t) - ?t\<bar> * pow2 ?e"
    using p by (simp add: abs_mult)
  also have "\<dots> \<le> 1 / 2 * pow2 ?e"
    using round_even_near [of ?t] p by (simp add: mult_right_mono)
  also have "1 / 2 * pow2 ?e = pow2 (expo x) / 2 ^ 53"
  proof -
    have "pow2 (expo x) = pow2 ?e * pow2 52" using pow2_add [of ?e 52] by simp
    also have "pow2 52 = 2 ^ 52" using pow2_nat [of 52] by simp
    finally show ?thesis by simp
  qed
  also have "\<dots> \<le> x / 2 ^ 53"
    using expo_bounds [OF assms] by (simp add: divide_right_mono)
  finally show ?thesis .
qed

lemma fl_bounds:
  assumes "0 < x"
  shows "x * (1 - eps) \<le> fl x" and "fl x \<le> x * (1 + eps)" and "0 < fl x"
proof -
  from fl_rel [OF assms] have "\<bar>fl x - x\<bar> \<le> x * eps" by (simp add: eps_def)
  then have a: "x - x * eps \<le> fl x" "fl x \<le> x + x * eps"
    by (simp_all only: abs_le_iff) linarith+
  show 1: "x * (1 - eps) \<le> fl x" using a(1) by (simp only: right_diff_distrib mult_1_right)
  show "fl x \<le> x * (1 + eps)" using a(2) by (simp only: distrib_left mult_1_right)
  have "eps < 1" by (simp add: eps_def)
  then have "0 < x * (1 - eps)" using assms by simp
  with 1 show "0 < fl x" by linarith
qed

lemma eps_small: "0 < eps" "eps < 1" "3 * eps * 2 ^ 31 \<le> 1 / 2 ^ 20"
  by (simp_all add: eps_def)




lemma round_even_ge_floor: "\<lfloor>t\<rfloor> \<le> round_even t"
  unfolding round_even_def Let_def by auto

lemma expo_less:
  assumes "0 < x" and "x < 2 ^ k"
  shows "expo x < int k"
proof (rule ccontr)
  assume "\<not> expo x < int k"
  then have "int k \<le> expo x" by simp
  then have "(2::real) powi int k \<le> 2 powi expo x" by (intro power_int_increasing) simp_all
  then have "2 ^ k \<le> pow2 (expo x)" by (simp add: pow2_powi)
  with expo_bounds [OF assms(1)] assms(2) show False by linarith
qed

text \<open>Rounding never crosses an integer below \<open>2^53\<close>: such an integer is a double.\<close>

lemma fl_ge_int:
  assumes n: "0 \<le> n" and x: "real_of_int n \<le> x" "x < 2 ^ 53" and pos: "0 < x"
  shows "real_of_int n \<le> fl x"
proof -
  define k where "k = nat (52 - expo x)"
  from expo_less [OF pos x(2)] have e: "expo x - 52 = - int k" by (simp add: k_def)
  have p: "pow2 (expo x - 52) = 1 / 2 ^ k"
    unfolding e by (simp add: pow2_neg pow2_nat)
  let ?t = "x * 2 ^ k"
  have "real_of_int (n * 2 ^ k) \<le> ?t" using x(1) by simp
  then have "n * 2 ^ k \<le> \<lfloor>?t\<rfloor>" by (simp only: le_floor_iff)
  also have "\<dots> \<le> round_even ?t" by (rule round_even_ge_floor)
  finally have "real_of_int (n * 2 ^ k) \<le> real_of_int (round_even ?t)" by (simp only: of_int_le_iff)
  then have "real_of_int n * 2 ^ k \<le> real_of_int (round_even ?t)" by simp
  then have "real_of_int n \<le> real_of_int (round_even ?t) / 2 ^ k"
    by (simp add: pos_le_divide_eq)
  moreover have "fl x = real_of_int (round_even ?t) / 2 ^ k"
    using pos by (simp add: fl_def fl_pos_def Let_def p)
  ultimately show ?thesis by simp
qed

lemmas eval_fl = fl_def fl_pos_def expo_def pow2_def round_even_def ilog2.simps js_round_def Let_def

lemma fl_08: "fl 0.8 = 3602879701896397 / 4503599627370496"
  by (simp add: eval_fl)

lemma fl_09: "fl 0.9 = 8106479329266893 / 9007199254740992"
  by (simp add: eval_fl)

lemma floor_fl_scaled:
  fixes q a b :: int and c :: real
  assumes q: "0 \<le> q" "q < 2 ^ 31" and ab: "0 < a" "a < b" "b \<le> 10"
    and c: "real_of_int a / real_of_int b \<le> c" "c \<le> real_of_int a / real_of_int b + 1 / 2 ^ 50"
  shows "\<lfloor>fl (real_of_int q * c)\<rfloor> = a * q div b"
proof (cases "q = 0")
  case True
  then show ?thesis by (simp add: fl_def)
next
  case False
  with q have qpos: "0 < q" by simp
  define n where "n = a * q div b"
  define r where "r = a * q mod b"
  define x where "x = real_of_int q * c"
  have bpos: "0 < b" using ab by simp
  have r: "0 \<le> r" "r \<le> b - 1" using bpos by (simp_all add: r_def)
  have n0: "0 \<le> n" using ab q by (simp add: n_def pos_imp_zdiv_nonneg_iff)
  have "a * q = b * n + r" by (simp add: n_def r_def)
  then have "real_of_int (a * q) = real_of_int (b * n + r)" by simp
  then have eq: "real_of_int a * real_of_int q = real_of_int b * real_of_int n + real_of_int r"
    by simp
  have rb: "0 < real_of_int b" "real_of_int b \<le> 10" using bpos ab by simp_all
  have exact: "real_of_int a / real_of_int b * real_of_int q = real_of_int n + real_of_int r / real_of_int b"
    using eq rb by (simp add: field_simps)
  have rq: "0 < real_of_int q" "real_of_int q < 2 ^ 31"
    using qpos q(2) by (simp_all only: of_int_0_less_iff) (metis of_int_less_iff of_int_numeral of_int_power)
  have frac0: "0 \<le> real_of_int r / real_of_int b" using r rb by simp
  have "real_of_int r \<le> real_of_int b - 1" using r by (metis of_int_le_iff of_int_diff of_int_1)
  then have "real_of_int r / real_of_int b \<le> (real_of_int b - 1) / real_of_int b"
    using rb by (simp add: divide_right_mono)
  also have "\<dots> = 1 - 1 / real_of_int b" using rb by (simp add: field_simps)
  also have "\<dots> \<le> 1 - 1 / 10" using rb by (simp add: field_simps)
  finally have frac1: "real_of_int r / real_of_int b \<le> 9 / 10" by simp
  have xl: "real_of_int a / real_of_int b * real_of_int q \<le> x"
  proof -
    have "real_of_int q * (real_of_int a / real_of_int b) \<le> real_of_int q * c"
      using c(1) rq(1) by (intro mult_left_mono) simp_all
    then show ?thesis by (simp only: x_def mult.commute)
  qed
  define A where "A = real_of_int a / real_of_int b * real_of_int q"
  define F where "F = real_of_int r / real_of_int b"
  have AF: "A = real_of_int n + F" "F \<le> 9 / 10" "0 \<le> F"
    using exact frac1 frac0 by (simp_all only: A_def F_def)
  have "x \<le> real_of_int q * (real_of_int a / real_of_int b + 1 / 2 ^ 50)"
    unfolding x_def using c(2) rq(1) by (intro mult_left_mono) simp_all
  also have "\<dots> = A + real_of_int q / 2 ^ 50"
    by (simp add: A_def field_simps)
  also have "\<dots> \<le> A + 2 ^ 31 / 2 ^ 50"
    using rq(2) by (simp add: divide_right_mono)
  also have "\<dots> = A + 1 / 2 ^ 19" by simp
  finally have "x \<le> A + 1 / 2 ^ 19" .
  with AF have xu: "x \<le> real_of_int n + 9 / 10 + 1 / 2 ^ 19" by linarith
  have "A \<le> x" using xl by (simp only: A_def)
  with AF have xn: "real_of_int n \<le> x" by linarith
  have cpos: "0 < c" proof -
    have "0 < real_of_int a" using ab by simp
    then have "0 < real_of_int a / real_of_int b" using rb by (intro divide_pos_pos)
    with c(1) show ?thesis by linarith
  qed
  have xpos: "0 < x" unfolding x_def using rq(1) cpos by simp
  have "real_of_int a / real_of_int b \<le> 1" using ab rb by simp
  then have "c \<le> 2" using c(2) by simp
  then have "x \<le> real_of_int q * 2" unfolding x_def using rq(1) by (intro mult_left_mono) simp_all
  then have x32: "x \<le> 2 ^ 32" using rq(2) by simp
  then have x53: "x < 2 ^ 53" by simp
  from fl_ge_int [OF n0 xn x53 xpos] have lo: "real_of_int n \<le> fl x" .
  have "x * eps \<le> 2 ^ 32 * eps" using x32 eps_small(1) by (intro mult_right_mono) simp_all
  also have "\<dots> = 1 / 2 ^ 21" by (simp add: eps_def)
  finally have xe: "x * eps \<le> 1 / 2 ^ 21" .
  have "fl x \<le> x + x * eps" using fl_bounds(2) [OF xpos] by (simp add: algebra_simps)
  with xu xe have "fl x \<le> real_of_int n + 9 / 10 + 1 / 2 ^ 19 + 1 / 2 ^ 21" by linarith
  then have hi: "fl x < real_of_int n + 1" by simp
  from lo hi have "\<lfloor>fl x\<rfloor> = n" by (simp add: floor_unique)
  then show ?thesis by (simp add: x_def n_def)
qed

section \<open>Properties of the capture compressor\<close>

subsection \<open>The dimension clamp\<close>







subsection \<open>The two levers\<close>

text \<open>
  On the integers that occur, the rounded product has the floor of the exact one: the
  doubles nearest to 0.8 and 0.9 lie above them by less than \<open>2^-50\<close>.
\<close>

lemma fl_08_bounds:
  "real_of_int 4 / real_of_int 5 \<le> fl 0.8" "fl 0.8 \<le> real_of_int 4 / real_of_int 5 + 1 / 2 ^ 50"
  unfolding fl_08 by simp_all

lemma fl_09_bounds:
  "real_of_int 9 / real_of_int 10 \<le> fl 0.9" "fl 0.9 \<le> real_of_int 9 / real_of_int 10 + 1 / 2 ^ 50"
  unfolding fl_09 by simp_all

lemma decayQuality_eq: "0 \<le> q \<Longrightarrow> q < 2 ^ 31 \<Longrightarrow> decayQuality q = max 10 (4 * q div 5)"
proof -
  assume q: "0 \<le> q" "q < 2 ^ 31"
  have "\<lfloor>fl (real_of_int q * fl 0.8)\<rfloor> = 4 * q div 5"
    by (rule floor_fl_scaled [OF q _ _ _ fl_08_bounds]) simp_all
  then show ?thesis by (simp add: decayQuality_def)
qed

lemma shrinkDimension_eq: "0 \<le> d \<Longrightarrow> d < 2 ^ 31 \<Longrightarrow> shrinkDimension d = 9 * d div 10"
proof -
  assume d: "0 \<le> d" "d < 2 ^ 31"
  have "\<lfloor>fl (real_of_int d * fl 0.9)\<rfloor> = 9 * d div 10"
    by (rule floor_fl_scaled [OF d _ _ _ fl_09_bounds]) simp_all
  then show ?thesis by (simp add: shrinkDimension_def)
qed

lemma decayQuality_ge: "10 \<le> decayQuality q"
  by (simp add: decayQuality_def)

lemma decayQuality_range: "0 \<le> q \<Longrightarrow> q \<le> 100 \<Longrightarrow> 1 \<le> decayQuality q \<and> decayQuality q \<le> 100"
  by (simp add: decayQuality_eq) linarith

lemma decay_funpow_range:
  "1 \<le> q \<Longrightarrow> q \<le> 100 \<Longrightarrow> 1 \<le> (decayQuality ^^ i) q \<and> (decayQuality ^^ i) q \<le> 100"
  by (induction i) (simp_all add: decayQuality_range)

lemma decayQuality_mono:
  "0 \<le> a \<Longrightarrow> a \<le> b \<Longrightarrow> b \<le> 100 \<Longrightarrow> decayQuality a \<le> decayQuality b"
proof -
  assume a: "0 \<le> a" "a \<le> b" "b \<le> 100"
  then have "4 * a div 5 \<le> 4 * b div 5" by (intro zdiv_mono1) simp_all
  with a show ?thesis by (simp add: decayQuality_eq)
qed

lemma decayQuality_funpow_mono:
  "1 \<le> a \<Longrightarrow> a \<le> b \<Longrightarrow> b \<le> 100 \<Longrightarrow> (decayQuality ^^ k) a \<le> (decayQuality ^^ k) b"
proof (induction k)
  case 0
  then show ?case by simp
next
  case (Suc k)
  have a: "1 \<le> (decayQuality ^^ k) a" using decay_funpow_range [of a k] Suc.prems by simp
  have b: "(decayQuality ^^ k) b \<le> 100" using decay_funpow_range [of b k] Suc.prems by simp
  from a have a0: "0 \<le> (decayQuality ^^ k) a" by simp
  show ?case using decayQuality_mono [OF a0 Suc.IH [OF Suc.prems] b] by simp
qed

lemma decay10: "(decayQuality ^^ 10) 100 = 10"
  by (simp add: eval_nat_numeral decayQuality_eq)

lemma decay_le_10: "1 \<le> q \<Longrightarrow> q \<le> 100 \<Longrightarrow> (decayQuality ^^ 10) q \<le> 10"
  using decayQuality_funpow_mono [of q 100 10] by (simp only: decay10)

lemma decay_funpow_ge: "10 \<le> q \<Longrightarrow> 10 \<le> (decayQuality ^^ k) q"
  by (cases k) (simp_all add: decayQuality_ge)

subsection \<open>The loop\<close>

lemma loop_exit: "\<not> iterations s < maxIterations \<Longrightarrow> compress_loop len fmt M s = Inr s"
  by (subst compress_loop.simps) simp

lemma loop_fail:
  "iterations s < maxIterations \<Longrightarrow> encode fmt s = Inl e \<Longrightarrow> compress_loop len fmt M s = Inl e"
  by (subst compress_loop.simps) simp

lemma loop_stop:
  "iterations s < maxIterations \<Longrightarrow> encode fmt s = Inr buf \<Longrightarrow>
   len buf \<le> M \<or> currentQuality s \<le> 10 \<Longrightarrow>
   compress_loop len fmt M s = Inr (s\<lparr>compressedBuffer := Some buf\<rparr>)"
  by (subst compress_loop.simps) (simp add: Let_def)

lemma loop_step:
  "iterations s < maxIterations \<Longrightarrow> encode fmt s = Inr buf \<Longrightarrow>
   \<not> (len buf \<le> M \<or> currentQuality s \<le> 10) \<Longrightarrow>
   reduce fmt (s\<lparr>compressedBuffer := Some buf\<rparr>) = Inr s2 \<Longrightarrow>
   compress_loop len fmt M s = compress_loop len fmt M (s2\<lparr>iterations := iterations s2 + 1\<rparr>)"
  by (subst compress_loop.simps) (simp add: Let_def)


text \<open>One round of the lossy track, on the state of round \<open>i\<close>.\<close>

lemma jpeg_encode:
  assumes "1 \<le> q" "q \<le> 100"
  shows "encode Jpeg (jpegState img w h q i) = Inr (jpegEncoding img w h q i)"
  using decay_funpow_range [OF assms, of i]
  by (simp add: encode_def jpegState_def jpegEncoding_def)

lemma jpeg_reduce:
  assumes "0 < w" "0 < h"
  shows "reduce Jpeg ((jpegState img w h q i)\<lparr>compressedBuffer := Some (jpegEncoding img w h q i)\<rparr>)
           = Inr ((jpegState img w h q (Suc i))\<lparr>iterations := i\<rparr>)"
  using assms by (simp add: reduce_def resize_def jpegState_def)

lemma jpeg_round:
  assumes q: "1 \<le> q" "q \<le> 100" and d: "0 < w" "0 < h" and i: "i < 10"
  shows "compress_loop len Jpeg M (jpegState img w h q i) =
           (if jpegStops len M img w h q i
            then Inr ((jpegState img w h q i)\<lparr>compressedBuffer := Some (jpegEncoding img w h q i)\<rparr>)
            else compress_loop len Jpeg M (jpegState img w h q (Suc i)))"
proof -
  have it: "iterations (jpegState img w h q i) < maxIterations"
    using i by (simp add: jpegState_def maxIterations_def)
  have cq: "currentQuality (jpegState img w h q i) = (decayQuality ^^ i) q"
    by (simp add: jpegState_def)
  note enc = jpeg_encode [OF q, of img w h i]
  show ?thesis
  proof (cases "jpegStops len M img w h q i")
    case True
    then have "len (jpegEncoding img w h q i) \<le> M \<or> currentQuality (jpegState img w h q i) \<le> 10"
      by (simp add: jpegStops_def cq)
    from loop_stop [where len = len and M = M, OF it enc this] True show ?thesis by simp
  next
    case False
    then have ns: "\<not> (len (jpegEncoding img w h q i) \<le> M \<or> currentQuality (jpegState img w h q i) \<le> 10)"
      by (simp add: jpegStops_def cq)
    have "((jpegState img w h q (Suc i))\<lparr>iterations := i\<rparr>)
            \<lparr>iterations := iterations ((jpegState img w h q (Suc i))\<lparr>iterations := i\<rparr>) + 1\<rparr>
          = jpegState img w h q (Suc i)"
      by (simp add: jpegState_def)
    with loop_step [where len = len and M = M, OF it enc ns jpeg_reduce [OF d]] False show ?thesis by simp
  qed
qed

text \<open>
  The whole run: it leaves at the first round \<open>k\<close> that stops, with the buffer of that
  round, or at the bound with the buffer of round 9 and the quality decayed once more.
\<close>

lemma jpeg_run:
  assumes q: "1 \<le> q" "q \<le> 100" and d: "0 < w" "0 < h"
    and k: "k \<le> 10" and i: "i \<le> k"
    and before: "\<forall>j. i \<le> j \<and> j < k \<longrightarrow> \<not> jpegStops len M img w h q j"
    and at: "k < 10 \<longrightarrow> jpegStops len M img w h q k"
  shows "compress_loop len Jpeg M (jpegState img w h q i) =
           Inr (if k < 10
                then (jpegState img w h q k)\<lparr>compressedBuffer := Some (jpegEncoding img w h q k)\<rparr>
                else jpegState img w h q 10)"
  using i before
proof (induction "k - i" arbitrary: i)
  case 0
  then have ik: "i = k" by simp
  show ?case
  proof (cases "k < 10")
    case True
    with at jpeg_round [OF q d True, of len M img] show ?thesis by (simp add: ik)
  next
    case False
    with k have "k = 10" by simp
    then show ?thesis
      by (simp add: ik loop_exit jpegState_def maxIterations_def)
  qed
next
  case (Suc n)
  then have lt: "i < k" by simp
  with k have i10: "i < 10" by simp
  from Suc.prems(2) lt have ns: "\<not> jpegStops len M img w h q i" by simp
  have "compress_loop len Jpeg M (jpegState img w h q i) =
          compress_loop len Jpeg M (jpegState img w h q (Suc i))"
    using jpeg_round [OF q d i10, of len M img] ns by simp
  also have "\<dots> = Inr (if k < 10
                then (jpegState img w h q k)\<lparr>compressedBuffer := Some (jpegEncoding img w h q k)\<rparr>
                else jpegState img w h q 10)"
  proof (rule Suc.hyps(1))
    show "n = k - Suc i" using Suc.hyps(2) by simp
    show "Suc i \<le> k" using lt by simp
    show "\<forall>j. Suc i \<le> j \<and> j < k \<longrightarrow> \<not> jpegStops len M img w h q j"
      using Suc.prems(2) by simp
  qed
  finally show ?case .
qed

lemma first_stop:
  fixes P :: "nat \<Rightarrow> bool"
  shows "\<exists>k\<le>10. (\<forall>j<k. \<not> P j) \<and> (k < 10 \<longrightarrow> P k)"
proof (cases "\<exists>j<10. P j")
  case True
  then obtain j where j: "j < 10" "P j" by blast
  define k where "k = (LEAST j. P j)"
  have 1: "P k" unfolding k_def using j(2) by (rule LeastI)
  have "k \<le> j" unfolding k_def using j(2) by (rule Least_le)
  with j(1) have 2: "k \<le> 10" by simp
  have 3: "\<forall>i<k. \<not> P i" unfolding k_def using not_less_Least by blast
  from 1 2 3 have "k \<le> 10 \<and> (\<forall>j<k. \<not> P j) \<and> (k < 10 \<longrightarrow> P k)" by simp
  then show ?thesis by (rule exI [of _ k])
next
  case False
  then have "(10::nat) \<le> 10 \<and> (\<forall>j<10. \<not> P j) \<and> ((10::nat) < 10 \<longrightarrow> P 10)" by simp
  then show ?thesis by (rule exI [of _ 10])
qed

lemma clamp_result:
  assumes "clampDimensions mw mh maxW maxH = Inr (img, w, h)" and "0 < mw" and "0 < mh"
  shows "0 < w \<and> 0 < h"
  using assms
  by (auto simp: clampDimensions_def resize_def split: if_splits prod.splits)




lemma clamp_inside: "mw \<le> maxW \<Longrightarrow> mh \<le> maxH \<Longrightarrow>
    clampDimensions mw mh maxW maxH = Inr (Source, mw, mh)"
  by (simp add: clampDimensions_def)

text \<open>
  Two inputs whose exactly scaled dimension is a half (227.5 and 502.5): the doubles fall
  just below it and \<open>Math.round\<close> goes down.
\<close>

lemma clampTarget_halves:
  "clampTarget 1536 273 1280 1440 = (1280, 227)"
  "clampTarget 603 1200 1000 1000 = (502, 1000)"
  by code_simp+



subsection \<open>The lossless track and the quality\<close>

text \<open>
  With a requested quality of at most 10 the loop ends after its first encode, whatever
  the size and the format. A jpeg quality outside 1..100 is refused by the image library
  at the first encode.
\<close>

lemma lossless_low_quality_no_shrink:
  assumes "q \<le> 10" and "clampDimensions mw mh maxW maxH = Inr (img, w, h)"
  shows "compressImageToFit len (mw, mh) Png q maxW maxH a =
           Inr \<lparr>buffer = PngEnc img, sizeBytes = len (PngEnc img), width = w, height = h,
                finalQuality = q\<rparr>"
proof -
  let ?s = "\<lparr>image = img, currentWidth = w, currentHeight = h, currentQuality = q,
             compressedBuffer = None, iterations = 0\<rparr>"
  have "compress_loop len Png (effectiveMaxSizeBytes a) ?s
          = Inr (?s\<lparr>compressedBuffer := Some (PngEnc img)\<rparr>)"
    using assms(1)
    by (intro loop_stop) (simp_all add: maxIterations_def encode_def)
  then show ?thesis
    by (simp add: compressImageToFit_def compressFrom_def assms(2))
qed

lemma lossy_quality_out_of_range:
  assumes "q < 1 \<or> 100 < q" and "clampDimensions mw mh maxW maxH = Inr (img, w, h)"
  shows "compressImageToFit len (mw, mh) Jpeg q maxW maxH a = Inl (InvalidQuality q)"
proof -
  let ?s = "\<lparr>image = img, currentWidth = w, currentHeight = h, currentQuality = q,
             compressedBuffer = None, iterations = 0\<rparr>"
  have "compress_loop len Jpeg (effectiveMaxSizeBytes a) ?s = Inl (InvalidQuality q)"
    using assms(1)
    by (intro loop_fail) (auto simp add: maxIterations_def encode_def)
  then show ?thesis
    by (simp add: compressImageToFit_def compressFrom_def assms(2))
qed

subsection \<open>Claims about the compressor\<close>

text \<open>
  Claim C2. For the lossy format, with a requested quality the image library accepts
  (1 to 100, the range of the schema), a bitmap of positive dimensions on which the clamp
  succeeded, and an initial encode above the byte ceiling: the run of the function is
  determined round by round. Round \<open>i\<close> encodes at the dimensions the clamp left and at
  the quality decayed \<open>i\<close> times, each decay being \<open>q \<mapsto> max 10 \<lfloor>0.8 q\<rfloor>\<close>; the loop
  leaves at the first round \<open>k\<close> whose encode is within the ceiling or whose quality is at
  most 10, and returns that encode, its length, the dimensions of the clamp and that
  quality; if none of the rounds 0 to 9 stops, the quality has reached exactly 10 at the
  iteration bound and the function returns with the dimensions of the clamp. At least one
  decay happens when the requested quality is above 10, and the quality never falls
  below 10 when the requested one was not.
\<close>

theorem lossy_quality_decay:
  assumes q: "1 \<le> q" "q \<le> 100" and dims: "0 < mw" "0 < mh"
    and clamp: "clampDimensions mw mh maxW maxH = Inr (img, w, h)"
    and M: "M = effectiveMaxSizeBytes a"
    and big: "M < len (JpegEnc img q)"
  shows "\<exists>k\<le>10.
           (\<forall>i<k. \<not> jpegStops len M img w h q i)
         \<and> (k < 10 \<longrightarrow>
               jpegStops len M img w h q k
             \<and> compressImageToFit len (mw, mh) Jpeg q maxW maxH a =
                 Inr \<lparr>buffer = jpegEncoding img w h q k,
                      sizeBytes = len (jpegEncoding img w h q k),
                      width = w, height = h, finalQuality = (decayQuality ^^ k) q\<rparr>)
         \<and> (k = 10 \<longrightarrow>
               (decayQuality ^^ 10) q = 10
             \<and> compressImageToFit len (mw, mh) Jpeg q maxW maxH a =
                 Inr \<lparr>buffer = jpegEncoding img w h q 9,
                      sizeBytes = len (jpegEncoding img w h q 9),
                      width = w, height = h, finalQuality = 10\<rparr>)
         \<and> (10 < q \<longrightarrow> 1 \<le> k)
         \<and> (10 \<le> q \<longrightarrow> 10 \<le> (decayQuality ^^ k) q)
         \<and> (\<forall>i. (decayQuality ^^ Suc i) q = max 10 (4 * (decayQuality ^^ i) q div 5))"
proof -
  from clamp_result [OF clamp dims] have d: "0 < w" "0 < h" by simp_all
  from first_stop [of "jpegStops len M img w h q"]
  obtain k where k: "k \<le> 10" and before: "\<forall>j<k. \<not> jpegStops len M img w h q j"
    and at: "k < 10 \<longrightarrow> jpegStops len M img w h q k"
    by blast
  have before': "\<forall>j. 0 \<le> j \<and> j < k \<longrightarrow> \<not> jpegStops len M img w h q j"
    using before by simp
  have start: "jpegState img w h q 0 =
      \<lparr>image = img, currentWidth = w, currentHeight = h, currentQuality = q,
       compressedBuffer = None, iterations = 0\<rparr>"
    by (simp add: jpegState_def)
  have "compress_loop len Jpeg M (jpegState img w h q 0) =
           Inr (if k < 10
                then (jpegState img w h q k)\<lparr>compressedBuffer := Some (jpegEncoding img w h q k)\<rparr>
                else jpegState img w h q 10)"
    by (rule jpeg_run [OF q d k _ before' at]) simp
  then have run: "compress_loop len Jpeg M
        \<lparr>image = img, currentWidth = w, currentHeight = h, currentQuality = q,
         compressedBuffer = None, iterations = 0\<rparr> =
           Inr (if k < 10
                then (jpegState img w h q k)\<lparr>compressedBuffer := Some (jpegEncoding img w h q k)\<rparr>
                else jpegState img w h q 10)"
    by (simp only: start)
  have whole: "compressImageToFit len (mw, mh) Jpeg q maxW maxH a =
      compressFrom len Jpeg q M (img, w, h)"
    by (simp add: compressImageToFit_def clamp M)
  have c1: "compressImageToFit len (mw, mh) Jpeg q maxW maxH a =
                 Inr \<lparr>buffer = jpegEncoding img w h q k,
                      sizeBytes = len (jpegEncoding img w h q k),
                      width = w, height = h, finalQuality = (decayQuality ^^ k) q\<rparr>"
    if "k < 10"
    using that run by (simp add: whole compressFrom_def jpegState_def)
  have c2: "(decayQuality ^^ 10) q = 10
             \<and> compressImageToFit len (mw, mh) Jpeg q maxW maxH a =
                 Inr \<lparr>buffer = jpegEncoding img w h q 9,
                      sizeBytes = len (jpegEncoding img w h q 9),
                      width = w, height = h, finalQuality = 10\<rparr>"
    if k10: "k = 10"
  proof -
    from before k10 have "\<not> jpegStops len M img w h q 9" by simp
    then have "10 < (decayQuality ^^ 9) q" by (simp add: jpegStops_def)
    have "(decayQuality ^^ 10) q = decayQuality ((decayQuality ^^ 9) q)"
      by (simp add: eval_nat_numeral)
    then have "10 \<le> (decayQuality ^^ 10) q" by (simp only: decayQuality_ge)
    with decay_le_10 [OF q(1) q(2)] have ten: "(decayQuality ^^ 10) q = 10" by simp
    from run k10 have "compress_loop len Jpeg M
        \<lparr>image = img, currentWidth = w, currentHeight = h, currentQuality = q,
         compressedBuffer = None, iterations = 0\<rparr> = Inr (jpegState img w h q 10)"
      by simp
    then show ?thesis
      by (simp add: ten whole compressFrom_def jpegState_def)
  qed
  have c3: "1 \<le> k" if "10 < q"
  proof (rule ccontr)
    assume "\<not> 1 \<le> k"
    then have "k = 0" by simp
    with at have "jpegStops len M img w h q 0" by simp
    with big that show False by (simp add: jpegStops_def jpegEncoding_def)
  qed
  have c4: "10 \<le> q \<longrightarrow> 10 \<le> (decayQuality ^^ k) q"
    by (simp add: decay_funpow_ge)
  have c5: "(decayQuality ^^ Suc i) q = max 10 (4 * (decayQuality ^^ i) q div 5)" for i
    using decay_funpow_range [OF q, of i] by (simp add: decayQuality_eq)
  from k before at c1 c2 c3 c4 c5
  have "k \<le> 10 \<and>
           (\<forall>i<k. \<not> jpegStops len M img w h q i)
         \<and> (k < 10 \<longrightarrow>
               jpegStops len M img w h q k
             \<and> compressImageToFit len (mw, mh) Jpeg q maxW maxH a =
                 Inr \<lparr>buffer = jpegEncoding img w h q k,
                      sizeBytes = len (jpegEncoding img w h q k),
                      width = w, height = h, finalQuality = (decayQuality ^^ k) q\<rparr>)
         \<and> (k = 10 \<longrightarrow>
               (decayQuality ^^ 10) q = 10
             \<and> compressImageToFit len (mw, mh) Jpeg q maxW maxH a =
                 Inr \<lparr>buffer = jpegEncoding img w h q 9,
                      sizeBytes = len (jpegEncoding img w h q 9),
                      width = w, height = h, finalQuality = 10\<rparr>)
         \<and> (10 < q \<longrightarrow> 1 \<le> k)
         \<and> (10 \<le> q \<longrightarrow> 10 \<le> (decayQuality ^^ k) q)
         \<and> (\<forall>i. (decayQuality ^^ Suc i) q = max 10 (4 * (decayQuality ^^ i) q div 5))"
    by simp
  then show ?thesis by (rule exI [of _ k])
qed

theorem lossy_quality_decay_witness:
  "(1::int) \<le> 100 \<and> (100::int) \<le> 100 \<and> (0::int) < 2560 \<and> (0::int) < 1440
   \<and> clampDimensions 2560 1440 2560 1440 = Inr (Source, 2560, 1440)
   \<and> effectiveMaxSizeBytes None < pixelEncoder (2560, 1440) (JpegEnc Source 100)
   \<and> (\<exists>k\<le>10.
           (\<forall>i<k. \<not> jpegStops (pixelEncoder (2560, 1440)) 950000 Source 2560 1440 100 i)
         \<and> (k < 10 \<longrightarrow>
               jpegStops (pixelEncoder (2560, 1440)) 950000 Source 2560 1440 100 k
             \<and> compressImageToFit (pixelEncoder (2560, 1440)) (2560, 1440) Jpeg 100 2560 1440 None =
                 Inr \<lparr>buffer = jpegEncoding Source 2560 1440 100 k,
                      sizeBytes = pixelEncoder (2560, 1440) (jpegEncoding Source 2560 1440 100 k),
                      width = 2560, height = 1440, finalQuality = (decayQuality ^^ k) 100\<rparr>)
         \<and> (k = 10 \<longrightarrow>
               (decayQuality ^^ 10) 100 = 10
             \<and> compressImageToFit (pixelEncoder (2560, 1440)) (2560, 1440) Jpeg 100 2560 1440 None =
                 Inr \<lparr>buffer = jpegEncoding Source 2560 1440 100 9,
                      sizeBytes = pixelEncoder (2560, 1440) (jpegEncoding Source 2560 1440 100 9),
                      width = 2560, height = 1440, finalQuality = 10\<rparr>)
         \<and> 1 \<le> k \<and> 10 \<le> (decayQuality ^^ k) 100
         \<and> (\<forall>i. (decayQuality ^^ Suc i) 100 = max 10 (4 * (decayQuality ^^ i) 100 div 5)))"
proof -
  have q: "(1::int) \<le> 100" "(100::int) \<le> 100" by simp_all
  have dims: "(0::int) < 2560" "(0::int) < 1440" by simp_all
  have clamp: "clampDimensions 2560 1440 2560 1440 = Inr (Source, 2560, 1440)"
    by (simp add: clamp_inside)
  have M: "(950000::nat) = effectiveMaxSizeBytes None"
    by (simp add: effectiveMaxSizeBytes_def)
  have big: "950000 < pixelEncoder (2560, 1440) (JpegEnc Source 100)"
    by (simp add: pixelEncoder_def)
  from lossy_quality_decay [where len = "pixelEncoder (2560, 1440)", OF q dims clamp M big]
  have "\<exists>k\<le>10.
           (\<forall>i<k. \<not> jpegStops (pixelEncoder (2560, 1440)) 950000 Source 2560 1440 100 i)
         \<and> (k < 10 \<longrightarrow>
               jpegStops (pixelEncoder (2560, 1440)) 950000 Source 2560 1440 100 k
             \<and> compressImageToFit (pixelEncoder (2560, 1440)) (2560, 1440) Jpeg 100 2560 1440 None =
                 Inr \<lparr>buffer = jpegEncoding Source 2560 1440 100 k,
                      sizeBytes = pixelEncoder (2560, 1440) (jpegEncoding Source 2560 1440 100 k),
                      width = 2560, height = 1440, finalQuality = (decayQuality ^^ k) 100\<rparr>)
         \<and> (k = 10 \<longrightarrow>
               (decayQuality ^^ 10) 100 = 10
             \<and> compressImageToFit (pixelEncoder (2560, 1440)) (2560, 1440) Jpeg 100 2560 1440 None =
                 Inr \<lparr>buffer = jpegEncoding Source 2560 1440 100 9,
                      sizeBytes = pixelEncoder (2560, 1440) (jpegEncoding Source 2560 1440 100 9),
                      width = 2560, height = 1440, finalQuality = 10\<rparr>)
         \<and> 1 \<le> k \<and> 10 \<le> (decayQuality ^^ k) 100
         \<and> (\<forall>i. (decayQuality ^^ Suc i) 100 = max 10 (4 * (decayQuality ^^ i) 100 div 5))"
    by simp
  with q dims clamp big show ?thesis
    by (simp add: effectiveMaxSizeBytes_def)
qed

lemmas eval_compress = compressImageToFit_def compressFrom_def clamp_inside
  effectiveMaxSizeBytes_def maxIterations_def encode_def reduce_def resize_def
  compress_loop.simps decayQuality_eq shrinkDimension_eq pixelEncoder_def

text \<open>
  Claim C3, at a concrete input. A 1000 by 1000 bitmap that does not compress, requested
  as png: with quality 60 the loop shrinks it six times, to 531 by 531 and 845883 bytes;
  with quality 10 the test \<open>currentQuality <= 10\<close> of line 149 ends the loop after the
  first encode and the 3000000 bytes are returned unshrunk. The requested quality decides
  what the lossless track does.
\<close>

theorem lossless_track_depends_on_quality:
  "compressImageToFit (pixelEncoder (1000, 1000)) (1000, 1000) Png 60 1280 1440 None =
     Inr \<lparr>buffer = PngEnc (Resize 531 531), sizeBytes = 845883, width = 531, height = 531,
          finalQuality = 60\<rparr>
   \<and> compressImageToFit (pixelEncoder (1000, 1000)) (1000, 1000) Png 10 1280 1440 None =
     Inr \<lparr>buffer = PngEnc Source, sizeBytes = 3000000, width = 1000, height = 1000,
          finalQuality = 10\<rparr>"
  by (simp add: eval_compress)

text \<open>
  Claim C4, at concrete inputs. When the loop ends because the iteration bound is reached,
  the last round has already moved the lever after its encode: a 2560 by 1440 png that
  does not compress is returned encoded at 990 by 556 and reported as 891 by 500; a jpeg
  that stays above the ceiling, requested at quality 100, is returned encoded at quality 12
  and reported with \<open>finalQuality\<close> 10.
\<close>

theorem result_fields_at_iteration_bound:
  "compressImageToFit (pixelEncoder (2560, 1440)) (2560, 1440) Png 60 2560 1440 None =
     Inr \<lparr>buffer = PngEnc (Resize 990 556), sizeBytes = 1651320, width = 891, height = 500,
          finalQuality = 60\<rparr>
   \<and> compressImageToFit (\<lambda>e. 2000000) (2560, 1440) Jpeg 100 2560 1440 None =
     Inr \<lparr>buffer = JpegEnc (Resize 2560 1440) 12, sizeBytes = 2000000, width = 2560,
          height = 1440, finalQuality = 10\<rparr>"
  by (simp add: eval_compress)

text \<open>
  Claim C10. The capture handler calls the compressor with five arguments, so the sixth
  takes its default: every screenshot is compressed against the ceiling of 950000 bytes.
\<close>

theorem screenshot_ceiling_default:
  "chrome_screenshot_compress len metadata params =
     compressImageToFit len metadata (format params) (quality params)
       (max_width params) (max_height params) (Some 950000)
   \<and> effectiveMaxSizeBytes None = 950000"
  by (simp add: chrome_screenshot_compress_def compressImageToFit_def effectiveMaxSizeBytes_def)




section \<open>Properties of the session controller\<close>

subsection \<open>Page acquisition\<close>

lemma pages_open: "p \<in> set (pages w b) \<Longrightarrow> \<not> isClosed w p"
  by (auto simp: pages_def isClosed_def)

lemma openTab_pages: "fst (openTab b w) \<in> set (pages (snd (openTab b w)) b)"
  by (simp add: openTab_def pages_def)

lemma ensureBrowser_page_take:
  assumes "browser m = Some b" and "pageGone m w" and "failing w = []" and "pages w b = p # ps"
  shows "ensureBrowser_page vw vh m w = (Inr (), m\<lparr>page := Some p\<rparr>, withPage vw vh p w)"
proof -
  have "p \<in> set (pages w b)" using assms(4) by simp
  then have "\<not> isClosed w p" by (rule pages_open)
  then have "\<not> isClosed (w\<lparr>viewports := (viewports w)(p \<mapsto> (vw, vh))\<rparr>) p"
    by (simp add: isClosed_def)
  with assms \<open>\<not> isClosed w p\<close> show ?thesis
    by (auto simp add: ensureBrowser_page_def fails_def setViewport_def pageGone_def
          evaluateOnNewDocument_def withPage_def split: option.splits)
qed

lemma ensureBrowser_page_keep:
  "\<not> pageGone m w \<Longrightarrow> ensureBrowser_page vw vh m w = (Inr (), m, w)"
  by (auto simp add: ensureBrowser_page_def pageGone_def split: option.splits)

lemma withPage_facts:
  "viewports (withPage vw vh p w) p = Some (vw, vh)"
  "p \<in> set (overrides (withPage vw vh p w))"
  "launches (withPage vw vh p w) = launches w"
  "connected (withPage vw vh p w) = connected w"
  "listeners (withPage vw vh p w) = listeners w"
  "tabs (withPage vw vh p w) = tabs w"
  "pages (withPage vw vh p w) b = pages w b"
  "isClosed (withPage vw vh p w) p' = isClosed w p'"
  "isConnected (withPage vw vh p w) b = isConnected w b"
  by (simp_all add: withPage_def pages_def isClosed_def isConnected_def)

text \<open>
  When the browser has no page, the page that \<open>newPage()\<close> creates is closed by the
  handler before \<open>setViewport\<close> is called on it.
\<close>

lemma newPage_closed_by_handler:
  assumes "failing w = []" and "b \<in> set (listeners w)" and "page m \<noteq> Some (fresh_page w)"
  shows "\<exists>w1. newPage b m w = Inr (fresh_page w, w1) \<and> isClosed w1 (fresh_page w)
           \<and> tabs w1 = filter (\<lambda>t. fst t \<noteq> fresh_page w) (tabs w) \<and> failing w1 = []"
  using assms
  by (auto simp add: newPage_def fails_def openTab_def targetcreated_def page_close_def
        isClosed_def Let_def)

lemma ensureBrowser_page_new_rejects:
  assumes b: "browser m = Some b" and gone: "pageGone m w" and ok: "failing w = []"
    and none: "pages w b = []" and reg: "b \<in> set (listeners w)"
    and fresh: "page m \<noteq> Some (fresh_page w)"
  shows "\<exists>w1. ensureBrowser_page vw vh m w
                 = (Inl (DriverError SetViewport), m\<lparr>page := Some (fresh_page w)\<rparr>, w1)
           \<and> isClosed w1 (fresh_page w)"
proof -
  from newPage_closed_by_handler [OF ok reg fresh]
  obtain w1 where n: "newPage b m w = Inr (fresh_page w, w1)" and c: "isClosed w1 (fresh_page w)"
    by blast
  have "ensureBrowser_page vw vh m w
          = (Inl (DriverError SetViewport), m\<lparr>page := Some (fresh_page w)\<rparr>, w1)"
    using b gone ok none n c
    by (auto simp add: ensureBrowser_page_def fails_def setViewport_def pageGone_def
          split: option.splits)
  with c show ?thesis by blast
qed

subsection \<open>Launch\<close>

lemma initialize_page: "initialize m w = (r, m1) \<Longrightarrow> page m1 = page m \<and> browser m1 = browser m"
  by (auto simp: initialize_def split: if_splits sum.splits)

lemma ensureBrowser_launch_ok:
  assumes need: "needsLaunch m w" and init: "initialize m w = (Inr (), m1)" and ok: "failing w = []"
  shows "ensureBrowser_launch hl vw vh m w =
           (Inr (), m1\<lparr>browser := Some (length (launches w))\<rparr>,
            launched w \<lparr>executablePath = chromePath m1, headless = hl,
                        windowWidth = vw, windowHeight = vh\<rparr>)"
  using assms
  by (simp add: ensureBrowser_launch_def needsLaunch_def launch_def fails_def launched_def Let_def)

lemma launched_facts:
  "launches (launched w opts) = launches w @ [opts]"
  "isConnected (launched w opts) (length (launches w))"
  "listeners (launched w opts) = listeners w @ [length (launches w)]"
  "failing (launched w opts) = failing w"
  "pages (launched w opts) (length (launches w)) \<noteq> []"
  by (simp_all add: launched_def Let_def openTab_def isConnected_def pages_def)

lemma ensureBrowser_launches:
  assumes need: "needsLaunch m w" and init: "initialize m w = (Inr (), m1)" and ok: "failing w = []"
  shows "\<exists>m' w' p. ensureBrowser hl vw vh m w = (Inr (Some (length (launches w)), Some p), m', w')
        \<and> browser m' = Some (length (launches w)) \<and> page m' = Some p
        \<and> chromePath m' = chromePath m1
        \<and> launches w' = launches w @ [\<lparr>executablePath = chromePath m1, headless = hl,
                                         windowWidth = vw, windowHeight = vh\<rparr>]
        \<and> isConnected w' (length (launches w))
        \<and> listeners w' = listeners w @ [length (launches w)]
        \<and> \<not> isClosed w' p
        \<and> (page m = None \<longrightarrow> p \<in> set (pages w' (length (launches w)))
              \<and> viewports w' p = Some (vw, vh) \<and> p \<in> set (overrides w'))"
proof -
  let ?b = "length (launches w)"
  let ?opts = "\<lparr>executablePath = chromePath m1, headless = hl, windowWidth = vw, windowHeight = vh\<rparr>"
  let ?w1 = "launched w ?opts"
  let ?m1 = "m1\<lparr>browser := Some ?b\<rparr>"
  note step1 = ensureBrowser_launch_ok [OF need init ok, of hl vw vh]
  have pm: "page ?m1 = page m" using initialize_page [OF init] by simp
  have bm: "browser ?m1 = Some ?b" by simp
  have ok1: "failing ?w1 = []" using ok by (simp add: launched_facts)
  show ?thesis
  proof (cases "pageGone ?m1 ?w1")
    case True
    obtain p ps where first: "pages ?w1 ?b = p # ps"
      using launched_facts(5) [of w ?opts] by (cases "pages ?w1 ?b") auto
    let ?w' = "withPage vw vh p ?w1"
    let ?m' = "?m1\<lparr>page := Some p\<rparr>"
    have run: "ensureBrowser hl vw vh m w = (Inr (Some ?b, Some p), ?m', ?w')"
      by (simp add: ensureBrowser_def step1 ensureBrowser_page_take [OF bm True ok1 first])
    have mem: "p \<in> set (pages ?w' ?b)" using first by (simp add: withPage_facts)
    then have opn: "\<not> isClosed ?w' p" by (rule pages_open)
    have conn: "isConnected ?w' ?b"
      using launched_facts(2) [of w ?opts] by (simp add: withPage_facts)
    have F: "ensureBrowser hl vw vh m w = (Inr (Some ?b, Some p), ?m', ?w')
        \<and> browser ?m' = Some ?b \<and> page ?m' = Some p \<and> chromePath ?m' = chromePath m1
        \<and> launches ?w' = launches w @ [?opts]
        \<and> isConnected ?w' ?b \<and> listeners ?w' = listeners w @ [?b] \<and> \<not> isClosed ?w' p
        \<and> (page m = None \<longrightarrow> p \<in> set (pages ?w' ?b)
              \<and> viewports ?w' p = Some (vw, vh) \<and> p \<in> set (overrides ?w'))"
      using run mem opn conn by (simp add: withPage_facts launched_facts)
    show ?thesis
      by (rule exI [of _ ?m'], rule exI [of _ ?w'], rule exI [of _ p]) (rule F)
  next
    case False
    then obtain p where p: "page m = Some p" "\<not> isClosed ?w1 p"
      using pm by (auto simp: pageGone_def split: option.splits)
    have run: "ensureBrowser hl vw vh m w = (Inr (Some ?b, Some p), ?m1, ?w1)"
      using p pm by (simp add: ensureBrowser_def step1 ensureBrowser_page_keep [OF False])
    have F: "ensureBrowser hl vw vh m w = (Inr (Some ?b, Some p), ?m1, ?w1)
        \<and> browser ?m1 = Some ?b \<and> page ?m1 = Some p \<and> chromePath ?m1 = chromePath m1
        \<and> launches ?w1 = launches w @ [?opts]
        \<and> isConnected ?w1 ?b \<and> listeners ?w1 = listeners w @ [?b] \<and> \<not> isClosed ?w1 p
        \<and> (page m = None \<longrightarrow> p \<in> set (pages ?w1 ?b)
              \<and> viewports ?w1 p = Some (vw, vh) \<and> p \<in> set (overrides ?w1))"
      using run p pm by (simp add: launched_facts)
    show ?thesis
      by (rule exI [of _ ?m1], rule exI [of _ ?w1], rule exI [of _ p]) (rule F)
  qed
qed

lemma initialize_found:
  "chromePath m = None \<Longrightarrow> findChrome w = Inr path \<Longrightarrow>
     initialize m w = (Inr (), m\<lparr>chromePath := Some path\<rparr>)"
  by (simp add: initialize_def)

subsection \<open>The invariant of the manager\<close>

text \<open>
  The constructor establishes it and both operations keep it, whatever their outcome: it
  holds in every state the manager can reach.
\<close>

lemma manager_inv_new: "manager_inv newManager"
  by (simp add: manager_inv_def newManager_def)

lemma manager_inv_closeBrowser:
  "manager_inv m \<Longrightarrow> closeBrowser m w = (r, m', w') \<Longrightarrow> manager_inv m'"
  by (auto simp: manager_inv_def closeBrowser_def split: option.splits sum.splits)

lemma ensureBrowser_launch_browser:
  "ensureBrowser_launch hl vw vh m w = (r, m1, w1) \<Longrightarrow>
     page m1 = page m \<and> (browser m1 = None \<longrightarrow> browser m = None)"
  by (auto simp: ensureBrowser_launch_def initialize_def split: if_splits sum.splits prod.splits option.splits)

lemma ensureBrowser_page_browser:
  "ensureBrowser_page vw vh m w = (r, m1, w1) \<Longrightarrow>
     browser m1 = browser m \<and> (browser m = None \<longrightarrow> page m1 = page m)"
  by (auto simp: ensureBrowser_page_def Let_def split: if_splits sum.splits prod.splits option.splits list.splits)

lemma manager_inv_ensureBrowser:
  assumes "manager_inv m" and "ensureBrowser hl vw vh m w = (r, m', w')"
  shows "manager_inv m'"
proof -
  obtain r1 m1 w1 where 1: "ensureBrowser_launch hl vw vh m w = (r1, m1, w1)"
    by (cases "ensureBrowser_launch hl vw vh m w") auto
  obtain r2 m2 w2 where 2: "ensureBrowser_page vw vh m1 w1 = (r2, m2, w2)"
    by (cases "ensureBrowser_page vw vh m1 w1") auto
  from assms(2) 1 2 have "m' = m1 \<or> m' = m2"
    by (auto simp: ensureBrowser_def split: sum.splits)
  with assms(1) ensureBrowser_launch_browser [OF 1] ensureBrowser_page_browser [OF 2]
  show ?thesis by (auto simp: manager_inv_def)
qed

subsection \<open>Claims about the controller\<close>

text \<open>
  Claim C6. With a connected browser and an open current page, two calls of
  \<open>ensureBrowser\<close> in succession, with any arguments, both return that browser and that
  page, and leave the manager and the world exactly as they were: nothing is launched and
  no page is created.
\<close>

theorem ensureBrowser_idempotent:
  assumes "browser m = Some b" and "isConnected w b" and "page m = Some p" and "\<not> isClosed w p"
  shows "ensureBrowser_twice args1 args2 m w = (Inr (Some b, Some p), Inr (Some b, Some p), m, w)"
  using assms
  by (cases args1, cases args2)
     (simp add: ensureBrowser_twice_def ensureBrowser_def ensureBrowser_launch_def ensureBrowser_page_def)

theorem ensureBrowser_idempotent_witness:
  "browser sampleManager = Some 0 \<and> isConnected sampleWorld 0 \<and> page sampleManager = Some 0
   \<and> \<not> isClosed sampleWorld 0
   \<and> ensureBrowser_twice (False, 1280, 720) (True, 800, 600) sampleManager sampleWorld
       = (Inr (Some 0, Some 0), Inr (Some 0, Some 0), sampleManager, sampleWorld)"
proof -
  have 1: "browser sampleManager = Some 0" "page sampleManager = Some 0"
    by (simp_all add: sampleManager_def)
  have 2: "isConnected sampleWorld 0" "\<not> isClosed sampleWorld 0"
    by (simp_all add: sampleWorld_def isConnected_def isClosed_def)
  from ensureBrowser_idempotent [OF 1(1) 2(1) 1(2) 2(2)] 1 2
  show ?thesis by simp
qed

text \<open>
  Claim C8, as the code has it. With a connected browser that still has an open page, a
  current page that is absent or reports itself closed, and a driver that rejects no call,
  \<open>ensureBrowser\<close> takes the first page of \<open>browser.pages()\<close>, gives it the viewport made
  of the width and height of this very call and injects the \<open>window.open\<close> override; the
  page is open, nothing is launched and no page is created or closed. The manager keeps
  no viewport of its own: the request handlers call \<open>ensureBrowser()\<close>, which is
  \<open>ensureBrowser False 1280 720\<close>.
\<close>

theorem page_reacquisition:
  assumes b: "browser m = Some b" and conn: "isConnected w b"
    and gone: "page m = None \<or> (\<exists>p0. page m = Some p0 \<and> isClosed w p0)"
    and ok: "failing w = []"
    and first: "pages w b = p # ps"
  shows "ensureBrowser hl vw vh m w
           = (Inr (Some b, Some p), m\<lparr>page := Some p\<rparr>,
              w\<lparr>viewports := (viewports w)(p \<mapsto> (vw, vh)), overrides := overrides w @ [p]\<rparr>)
         \<and> \<not> isClosed (withPage vw vh p w) p
         \<and> p \<in> set (pages (withPage vw vh p w) b)
         \<and> viewports (withPage vw vh p w) p = Some (vw, vh)
         \<and> p \<in> set (overrides (withPage vw vh p w))
         \<and> launches (withPage vw vh p w) = launches w
         \<and> connected (withPage vw vh p w) = connected w
         \<and> tabs (withPage vw vh p w) = tabs w"
proof -
  have first': "ensureBrowser_launch hl vw vh m w = (Inr (), m, w)"
    using b conn by (simp add: ensureBrowser_launch_def)
  have g: "pageGone m w" using gone by (auto simp: pageGone_def)
  have run: "ensureBrowser hl vw vh m w
           = (Inr (Some b, Some p), m\<lparr>page := Some p\<rparr>,
              w\<lparr>viewports := (viewports w)(p \<mapsto> (vw, vh)), overrides := overrides w @ [p]\<rparr>)"
    using b
    by (simp add: ensureBrowser_def first' ensureBrowser_page_take [OF b g ok first] withPage_def)
  have mem: "p \<in> set (pages w b)" using first by simp
  then have opn: "\<not> isClosed w p" by (rule pages_open)
  show ?thesis using run mem opn by (simp add: withPage_facts)
qed

theorem page_reacquisition_witness:
  "browser stalePageManager = Some 0 \<and> isConnected sampleWorld 0
   \<and> page stalePageManager = Some 7 \<and> isClosed sampleWorld 7 \<and> failing sampleWorld = []
   \<and> pages sampleWorld 0 = [0, 1]
   \<and> ensureBrowser False 1280 720 stalePageManager sampleWorld
       = (Inr (Some 0, Some 0), stalePageManager\<lparr>page := Some 0\<rparr>,
          sampleWorld\<lparr>viewports := (viewports sampleWorld)(0 \<mapsto> (1280, 720)),
                       overrides := overrides sampleWorld @ [0]\<rparr>)
   \<and> \<not> isClosed (withPage 1280 720 0 sampleWorld) 0
   \<and> viewports (withPage 1280 720 0 sampleWorld) 0 = Some (1280, 720)
   \<and> 0 \<in> set (overrides (withPage 1280 720 0 sampleWorld))
   \<and> launches (withPage 1280 720 0 sampleWorld) = launches sampleWorld
   \<and> tabs (withPage 1280 720 0 sampleWorld) = tabs sampleWorld"
proof -
  have b: "browser stalePageManager = Some 0"
    by (simp add: stalePageManager_def sampleManager_def)
  have conn: "isConnected sampleWorld 0" by (simp add: isConnected_def sampleWorld_def)
  have pg: "page stalePageManager = Some 7" by (simp add: stalePageManager_def)
  have cl: "isClosed sampleWorld 7" by (simp add: isClosed_def sampleWorld_def)
  have ok: "failing sampleWorld = []" by (simp add: sampleWorld_def)
  have first: "pages sampleWorld 0 = [0, 1]" by (simp add: pages_def sampleWorld_def)
  have gone: "page stalePageManager = None \<or> (\<exists>p0. page stalePageManager = Some p0 \<and> isClosed sampleWorld p0)"
    using pg cl by simp
  from page_reacquisition [OF b conn gone ok first, of False 1280 720] b conn pg cl ok first
  show ?thesis by simp
qed

text \<open>
  Claim C8, as stated, fails in both of its parts. A connected browser without pages:
  \<open>newPage()\<close> creates page 2, the \<open>targetcreated\<close> handler finds it different from the
  stale \<open>this.page\<close> and closes it, and \<open>setViewport\<close> rejects; the call raises and the
  manager is left with a closed page. A browser launched with a 1920 x 1080 viewport: the
  page reacquired by \<open>ensureBrowser()\<close> gets 1280 x 720.
\<close>

theorem reacquisition_new_page_counterexample:
  "browser sampleManager = Some 0 \<and> page sampleManager = Some 0
   \<and> isConnected noTabsWorld 0 \<and> isClosed noTabsWorld 0 \<and> failing noTabsWorld = []
   \<and> pages noTabsWorld 0 = [] \<and> 0 \<in> set (listeners noTabsWorld)
   \<and> (case ensureBrowser False 1280 720 sampleManager noTabsWorld of
         (r, m', w') \<Rightarrow> r = Inl (DriverError SetViewport) \<and> page m' = Some 2
            \<and> isClosed w' 2 \<and> pages w' 0 = [] \<and> launches w' = launches noTabsWorld)
   \<and> isConnected wideWorld 0 \<and> isClosed wideWorld 0 \<and> failing wideWorld = []
   \<and> map (\<lambda>l. (windowWidth l, windowHeight l)) (launches wideWorld) = [(1920, 1080)]
   \<and> pages wideWorld 0 = [1] \<and> viewports wideWorld 1 = Some (1920, 1080)
   \<and> (case ensureBrowser False 1280 720 sampleManager wideWorld of
         (r, m', w') \<Rightarrow> r = Inr (Some 0, Some 1) \<and> viewports w' 1 = Some (1280, 720))"
  by (simp add: ensureBrowser_def ensureBrowser_launch_def ensureBrowser_page_def newPage_def
        openTab_def targetcreated_def page_close_def setViewport_def evaluateOnNewDocument_def
        fails_def isConnected_def isClosed_def pages_def Let_def
        sampleManager_def sampleWorld_def noTabsWorld_def wideWorld_def)

text \<open>
  Claim C7. \<open>closeBrowser\<close> without a browser changes nothing and does not fail; with
  one, and a driver that accepts the close, it clears both handles, whatever the state of
  the browser and the page. Whenever it returns, the manager has no browser, so the guard
  of line 189 sends the next \<open>ensureBrowser\<close> through the launch: with an executable at
  hand and a driver that rejects no call, exactly one browser is launched, it is the one
  returned, and (from a state of the manager that satisfies its invariant) the page
  returned is a page of the new browser, set up anew.
\<close>

theorem closeBrowser_then_fresh_launch:
  "(browser m = None \<longrightarrow> closeBrowser m w = (Inr (), m, w))
   \<and> (browser m = Some b \<and> \<not> fails w BrowserClose \<longrightarrow>
        (\<exists>w1. closeBrowser m w = (Inr (), m\<lparr>browser := None, page := None\<rparr>, w1)
              \<and> \<not> isConnected w1 b \<and> pages w1 b = []))
   \<and> (closeBrowser m w = (Inr (), m', w') \<longrightarrow>
        browser m' = None \<and> needsLaunch m' w' \<and> (manager_inv m \<longrightarrow> page m' = None)
        \<and> (initialize m' w' = (Inr (), m1) \<and> failing w' = [] \<longrightarrow>
            (\<exists>m2 w2 p. ensureBrowser hl vw vh m' w' = (Inr (Some (length (launches w')), Some p), m2, w2)
               \<and> browser m2 = Some (length (launches w')) \<and> page m2 = Some p
               \<and> launches w2 = launches w' @ [\<lparr>executablePath = chromePath m1, headless = hl,
                                                windowWidth = vw, windowHeight = vh\<rparr>]
               \<and> isConnected w2 (length (launches w'))
               \<and> listeners w2 = listeners w' @ [length (launches w')]
               \<and> \<not> isClosed w2 p
               \<and> (manager_inv m \<longrightarrow> p \<in> set (pages w2 (length (launches w')))
                     \<and> viewports w2 p = Some (vw, vh) \<and> p \<in> set (overrides w2)))))"
proof (intro conjI impI)
  assume "browser m = None"
  then show "closeBrowser m w = (Inr (), m, w)" by (simp add: closeBrowser_def)
next
  assume "browser m = Some b \<and> \<not> fails w BrowserClose"
  then show "\<exists>w1. closeBrowser m w = (Inr (), m\<lparr>browser := None, page := None\<rparr>, w1)
              \<and> \<not> isConnected w1 b \<and> pages w1 b = []"
    by (simp add: closeBrowser_def browser_close_def isConnected_def pages_def)
next
  assume c: "closeBrowser m w = (Inr (), m', w')"
  then show b': "browser m' = None"
    by (auto simp: closeBrowser_def split: option.splits sum.splits)
  then show "needsLaunch m' w'" by (simp add: needsLaunch_def)
  { assume "manager_inv m"
    with c show "page m' = None"
      by (auto simp: closeBrowser_def manager_inv_def split: option.splits sum.splits) }
  note pg = this
  { assume "initialize m' w' = (Inr (), m1) \<and> failing w' = []"
    then have init: "initialize m' w' = (Inr (), m1)" and ok: "failing w' = []" by simp_all
    have need: "needsLaunch m' w'" using b' by (simp add: needsLaunch_def)
    from ensureBrowser_launches [OF need init ok, of hl vw vh]
    obtain m2 w2 p where r:
      "ensureBrowser hl vw vh m' w' = (Inr (Some (length (launches w')), Some p), m2, w2)"
      "browser m2 = Some (length (launches w'))" "page m2 = Some p"
      "launches w2 = launches w' @ [\<lparr>executablePath = chromePath m1, headless = hl,
                                      windowWidth = vw, windowHeight = vh\<rparr>]"
      "isConnected w2 (length (launches w'))"
      "listeners w2 = listeners w' @ [length (launches w')]"
      "\<not> isClosed w2 p"
      "page m' = None \<longrightarrow> p \<in> set (pages w2 (length (launches w')))
              \<and> viewports w2 p = Some (vw, vh) \<and> p \<in> set (overrides w2)"
      by auto
    have F: "ensureBrowser hl vw vh m' w' = (Inr (Some (length (launches w')), Some p), m2, w2)
               \<and> browser m2 = Some (length (launches w')) \<and> page m2 = Some p
               \<and> launches w2 = launches w' @ [\<lparr>executablePath = chromePath m1, headless = hl,
                                                windowWidth = vw, windowHeight = vh\<rparr>]
               \<and> isConnected w2 (length (launches w'))
               \<and> listeners w2 = listeners w' @ [length (launches w')]
               \<and> \<not> isClosed w2 p
               \<and> (manager_inv m \<longrightarrow> p \<in> set (pages w2 (length (launches w')))
                     \<and> viewports w2 p = Some (vw, vh) \<and> p \<in> set (overrides w2))"
      using r pg by simp
    show "\<exists>m2 w2 p. ensureBrowser hl vw vh m' w' = (Inr (Some (length (launches w')), Some p), m2, w2)
               \<and> browser m2 = Some (length (launches w')) \<and> page m2 = Some p
               \<and> launches w2 = launches w' @ [\<lparr>executablePath = chromePath m1, headless = hl,
                                                windowWidth = vw, windowHeight = vh\<rparr>]
               \<and> isConnected w2 (length (launches w'))
               \<and> listeners w2 = listeners w' @ [length (launches w')]
               \<and> \<not> isClosed w2 p
               \<and> (manager_inv m \<longrightarrow> p \<in> set (pages w2 (length (launches w')))
                     \<and> viewports w2 p = Some (vw, vh) \<and> p \<in> set (overrides w2))"
      by (rule exI [of _ m2], rule exI [of _ w2], rule exI [of _ p]) (rule F) }
qed

theorem closeBrowser_then_fresh_launch_witness:
  "browser newManager = None \<and> closeBrowser newManager sampleWorld = (Inr (), newManager, sampleWorld)
   \<and> browser sampleManager = Some 0 \<and> \<not> fails sampleWorld BrowserClose
   \<and> closeBrowser sampleManager sampleWorld = (Inr (), closedManager, closedWorld)
   \<and> manager_inv sampleManager
   \<and> initialize closedManager closedWorld = (Inr (), closedManager) \<and> failing closedWorld = []
   \<and> browser closedManager = None \<and> page closedManager = None
   \<and> (\<exists>m2 w2 p. ensureBrowser False 1280 720 closedManager closedWorld = (Inr (Some 1, Some p), m2, w2)
         \<and> browser m2 = Some 1 \<and> page m2 = Some p
         \<and> launches w2 = launches closedWorld @ [\<lparr>executablePath = Some ''/usr/bin/chromium'',
               headless = False, windowWidth = 1280, windowHeight = 720\<rparr>]
         \<and> isConnected w2 1 \<and> \<not> isClosed w2 p \<and> p \<in> set (pages w2 1)
         \<and> viewports w2 p = Some (1280, 720) \<and> p \<in> set (overrides w2))"
proof -
  have n: "browser newManager = None" by (simp add: newManager_def)
  have b: "browser sampleManager = Some 0" by (simp add: sampleManager_def)
  have nf: "\<not> fails sampleWorld BrowserClose" by (simp add: fails_def sampleWorld_def)
  have c: "closeBrowser sampleManager sampleWorld = (Inr (), closedManager, closedWorld)"
    by (simp add: closeBrowser_def browser_close_def fails_def closedManager_def closedWorld_def
          sampleManager_def sampleWorld_def)
  have inv: "manager_inv sampleManager" by (simp add: manager_inv_def sampleManager_def)
  have init: "initialize closedManager closedWorld = (Inr (), closedManager)"
    by (simp add: initialize_def closedManager_def sampleManager_def)
  have ok: "failing closedWorld = []" by (simp add: closedWorld_def sampleWorld_def)
  have len: "length (launches closedWorld) = 1" by (simp add: closedWorld_def sampleWorld_def)
  have cp: "chromePath closedManager = Some ''/usr/bin/chromium''"
    by (simp add: closedManager_def sampleManager_def)
  from closeBrowser_then_fresh_launch [of newManager sampleWorld 0 newManager sampleWorld newManager False 1280 720] n
  have 1: "closeBrowser newManager sampleWorld = (Inr (), newManager, sampleWorld)" by simp
  from closeBrowser_then_fresh_launch [of sampleManager sampleWorld 0 closedManager closedWorld closedManager False 1280 720]
    b nf c inv init ok
  have 2: "browser closedManager = None \<and> page closedManager = None
     \<and> (\<exists>m2 w2 p. ensureBrowser False 1280 720 closedManager closedWorld = (Inr (Some 1, Some p), m2, w2)
         \<and> browser m2 = Some 1 \<and> page m2 = Some p
         \<and> launches w2 = launches closedWorld @ [\<lparr>executablePath = Some ''/usr/bin/chromium'',
               headless = False, windowWidth = 1280, windowHeight = 720\<rparr>]
         \<and> isConnected w2 1 \<and> \<not> isClosed w2 p \<and> p \<in> set (pages w2 1)
         \<and> viewports w2 p = Some (1280, 720) \<and> p \<in> set (overrides w2))"
    unfolding len cp by auto
  from n 1 b nf c inv init ok 2 show ?thesis by simp
qed

text \<open>
  Claim C9. When a launch is due, no executable path is cached and \<open>findChrome\<close> raises,
  \<open>ensureBrowser\<close> ends with that error and leaves the manager and the world untouched:
  nothing is cached. A later call on the same manager runs \<open>findChrome\<close> again and, once
  it finds an executable, launches it.
\<close>

theorem findChrome_failure_not_cached:
  assumes need: "needsLaunch m w" and nopath: "chromePath m = None" and nf: "findChrome w = Inl e"
  shows "ensureBrowser hl vw vh m w = (Inl e, m, w)
       \<and> e = ChromeNotFound (chromePaths w)
       \<and> (needsLaunch m w2 \<and> findChrome w2 = Inr path \<and> failing w2 = [] \<longrightarrow>
            (\<exists>m2 w3 p. ensureBrowser hl2 vw2 vh2 m w2
                          = (Inr (Some (length (launches w2)), Some p), m2, w3)
               \<and> chromePath m2 = Some path
               \<and> launches w3 = launches w2 @ [\<lparr>executablePath = Some path, headless = hl2,
                                                windowWidth = vw2, windowHeight = vh2\<rparr>]
               \<and> isConnected w3 (length (launches w2)) \<and> \<not> isClosed w3 p))"
proof (intro conjI impI)
  show "ensureBrowser hl vw vh m w = (Inl e, m, w)"
    using assms
    by (simp add: ensureBrowser_def ensureBrowser_launch_def initialize_def needsLaunch_def)
  show "e = ChromeNotFound (chromePaths w)"
    using nf by (auto simp: findChrome_def split: option.splits)
next
  assume "needsLaunch m w2 \<and> findChrome w2 = Inr path \<and> failing w2 = []"
  then have need2: "needsLaunch m w2" and found: "findChrome w2 = Inr path" and ok: "failing w2 = []"
    by simp_all
  note init = initialize_found [OF nopath found]
  from ensureBrowser_launches [OF need2 init ok, of hl2 vw2 vh2]
  obtain m2 w3 p where r:
    "ensureBrowser hl2 vw2 vh2 m w2 = (Inr (Some (length (launches w2)), Some p), m2, w3)"
    "chromePath m2 = Some path"
    "launches w3 = launches w2 @ [\<lparr>executablePath = Some path, headless = hl2,
                                    windowWidth = vw2, windowHeight = vh2\<rparr>]"
    "isConnected w3 (length (launches w2))" "\<not> isClosed w3 p"
    by auto
  then have F: "ensureBrowser hl2 vw2 vh2 m w2 = (Inr (Some (length (launches w2)), Some p), m2, w3)
               \<and> chromePath m2 = Some path
               \<and> launches w3 = launches w2 @ [\<lparr>executablePath = Some path, headless = hl2,
                                                windowWidth = vw2, windowHeight = vh2\<rparr>]
               \<and> isConnected w3 (length (launches w2)) \<and> \<not> isClosed w3 p"
    by simp
  show "\<exists>m2 w3 p. ensureBrowser hl2 vw2 vh2 m w2
                          = (Inr (Some (length (launches w2)), Some p), m2, w3)
               \<and> chromePath m2 = Some path
               \<and> launches w3 = launches w2 @ [\<lparr>executablePath = Some path, headless = hl2,
                                                windowWidth = vw2, windowHeight = vh2\<rparr>]
               \<and> isConnected w3 (length (launches w2)) \<and> \<not> isClosed w3 p"
    by (rule exI [of _ m2], rule exI [of _ w3], rule exI [of _ p]) (rule F)
qed

theorem findChrome_failure_not_cached_witness:
  "needsLaunch newManager emptyWorld \<and> chromePath newManager = None
   \<and> findChrome emptyWorld = Inl (ChromeNotFound [''/usr/bin/google-chrome'', ''/usr/bin/chromium''])
   \<and> ensureBrowser False 1280 720 newManager emptyWorld
       = (Inl (ChromeNotFound [''/usr/bin/google-chrome'', ''/usr/bin/chromium'']), newManager, emptyWorld)
   \<and> needsLaunch newManager chromeInstalled \<and> findChrome chromeInstalled = Inr ''/usr/bin/chromium''
   \<and> failing chromeInstalled = []
   \<and> (\<exists>m2 w3 p. ensureBrowser False 1280 720 newManager chromeInstalled = (Inr (Some 0, Some p), m2, w3)
         \<and> chromePath m2 = Some ''/usr/bin/chromium''
         \<and> launches w3 = [\<lparr>executablePath = Some ''/usr/bin/chromium'', headless = False,
                             windowWidth = 1280, windowHeight = 720\<rparr>]
         \<and> isConnected w3 0 \<and> \<not> isClosed w3 p)"
proof -
  let ?e = "ChromeNotFound [''/usr/bin/google-chrome'', ''/usr/bin/chromium'']"
  have need: "needsLaunch newManager emptyWorld" "needsLaunch newManager chromeInstalled"
    by (simp_all add: needsLaunch_def newManager_def)
  have np: "chromePath newManager = None" by (simp add: newManager_def)
  have nf: "findChrome emptyWorld = Inl ?e" by (simp add: findChrome_def emptyWorld_def)
  have found: "findChrome chromeInstalled = Inr ''/usr/bin/chromium''"
    by (simp add: findChrome_def chromeInstalled_def emptyWorld_def)
  have ok: "failing chromeInstalled = []" by (simp add: chromeInstalled_def emptyWorld_def)
  have l: "launches chromeInstalled = []" by (simp add: chromeInstalled_def emptyWorld_def)
  note inst = findChrome_failure_not_cached [OF need(1) np nf,
      of False 1280 720 chromeInstalled "''/usr/bin/chromium''" False 1280 720]
  from inst have 1: "ensureBrowser False 1280 720 newManager emptyWorld = (Inl ?e, newManager, emptyWorld)"
    by simp
  from inst need(2) found ok
  have 2: "\<exists>m2 w3 p. ensureBrowser False 1280 720 newManager chromeInstalled = (Inr (Some 0, Some p), m2, w3)
         \<and> chromePath m2 = Some ''/usr/bin/chromium''
         \<and> launches w3 = [\<lparr>executablePath = Some ''/usr/bin/chromium'', headless = False,
                             windowWidth = 1280, windowHeight = 720\<rparr>]
         \<and> isConnected w3 0 \<and> \<not> isClosed w3 p"
    unfolding l by auto
  from need np nf 1 found ok 2 show ?thesis by simp
qed

text \<open>
  Claim C1, as the code has it. For a new page other than the current one, with a
  non-blank URL: when the redirect of the current page succeeds (and the driver accepts the
  close), the handler ends normally with the new page closed and the current page at that
  URL; when the redirect fails, the handler ends with that error and the world unchanged:
  the error is not swallowed and the close of line 219 is not reached.
\<close>

theorem interception_closes_after_redirect:
  assumes t: "target_type t = ''page''" "target_page t = Some np"
    and cur: "page m = Some p" and new: "np \<noteq> p"
    and url: "urls w np = url" "url \<noteq> []" "url \<noteq> ''about:blank''"
  shows "(goto p url w = Inr w1 \<and> \<not> fails w PageClose \<longrightarrow>
            (\<exists>w2. targetcreated t m w = (Inr (), w2) \<and> isClosed w2 np \<and> urls w2 p = url))
       \<and> (goto p url w = Inl e \<longrightarrow>
            targetcreated t m w = (Inl e, w))"
  using assms
  by (auto simp add: targetcreated_def Let_def goto_def page_close_def fails_def isClosed_def
        split: if_splits)

theorem interception_closes_after_redirect_witness:
  "target_type popupTarget = ''page'' \<and> target_page popupTarget = Some 1
   \<and> page sampleManager = Some 0 \<and> (1::nat) \<noteq> 0
   \<and> urls sampleWorld 1 = ''https://example.org/''
   \<and> goto 0 ''https://example.org/'' sampleWorld
       = Inr (sampleWorld\<lparr>urls := (urls sampleWorld)(0 := ''https://example.org/'')\<rparr>)
   \<and> \<not> fails sampleWorld PageClose
   \<and> (\<exists>w2. targetcreated popupTarget sampleManager sampleWorld = (Inr (), w2)
          \<and> isClosed w2 1 \<and> urls w2 0 = ''https://example.org/'')
   \<and> goto 0 ''https://example.org/'' (sampleWorld\<lparr>failing := [Goto]\<rparr>) = Inl (DriverError Goto)
   \<and> targetcreated popupTarget sampleManager (sampleWorld\<lparr>failing := [Goto]\<rparr>)
       = (Inl (DriverError Goto), sampleWorld\<lparr>failing := [Goto]\<rparr>)"
proof -
  let ?u = "''https://example.org/''"
  let ?wf = "sampleWorld\<lparr>failing := [Goto]\<rparr>"
  have t: "target_type popupTarget = ''page''" "target_page popupTarget = Some 1"
    by (simp_all add: popupTarget_def)
  have cur: "page sampleManager = Some 0" by (simp add: sampleManager_def)
  have new: "(1::nat) \<noteq> 0" by simp
  have url: "urls sampleWorld 1 = ?u" "?u \<noteq> []" "?u \<noteq> ''about:blank''"
    by (simp_all add: sampleWorld_def)
  have urlf: "urls ?wf 1 = ?u" by (simp add: sampleWorld_def)
  have go: "goto 0 ?u sampleWorld = Inr (sampleWorld\<lparr>urls := (urls sampleWorld)(0 := ?u)\<rparr>)"
    by (simp add: goto_def fails_def isClosed_def sampleWorld_def)
  have nf: "\<not> fails sampleWorld PageClose" by (simp add: fails_def sampleWorld_def)
  have gof: "goto 0 ?u ?wf = Inl (DriverError Goto)" by (simp add: goto_def fails_def)
  from interception_closes_after_redirect [OF t cur new url,
      of "sampleWorld\<lparr>urls := (urls sampleWorld)(0 := ?u)\<rparr>" "DriverError Goto"] go nf
  have ok: "\<exists>w2. targetcreated popupTarget sampleManager sampleWorld = (Inr (), w2)
          \<and> isClosed w2 1 \<and> urls w2 0 = ?u"
    by simp
  from interception_closes_after_redirect [OF t cur new urlf url(2,3),
      of "sampleWorld" "DriverError Goto"] gof
  have bad: "targetcreated popupTarget sampleManager ?wf = (Inl (DriverError Goto), ?wf)"
    by simp
  from t cur url go nf ok gof bad show ?thesis by simp
qed

text \<open>
  Claim C1, as stated, fails: with a driver that rejects the navigation, the handler ends
  with the error and the new page (page 1) is still open.
\<close>

theorem interception_redirect_failure_counterexample:
  "urls (sampleWorld\<lparr>failing := [Goto]\<rparr>) 1 = ''https://example.org/''
   \<and> goto 0 ''https://example.org/'' (sampleWorld\<lparr>failing := [Goto]\<rparr>) = Inl (DriverError Goto)
   \<and> targetcreated \<lparr>target_type = ''page'', target_page = Some 1\<rparr> sampleManager
        (sampleWorld\<lparr>failing := [Goto]\<rparr>)
      = (Inl (DriverError Goto), sampleWorld\<lparr>failing := [Goto]\<rparr>)
   \<and> \<not> isClosed (sampleWorld\<lparr>failing := [Goto]\<rparr>) 1"
  by (simp add: targetcreated_def Let_def goto_def fails_def isClosed_def sampleWorld_def
        sampleManager_def)

end
